theory Spec2Isabelle
  imports
    Main
    "HOL-Library.AList"
    "HOL-Library.Char_ord"
    "HOL-Library.List_Lexorder"
    "HOL-Library.Product_Lexorder"
    "HOL-Library.Multiset"
begin

unbundle bit_operations_syntax

section \<open>Python strings\<close>

text \<open>
  A Python \<open>str\<close> is modelled as a \<open>string\<close>: a list of characters, each one a code
  point below 256. The exceptions that the program can raise are values of \<open>py_error\<close>.
\<close>

datatype py_error = ValueError | TypeError | UnboundLocalError | SystemExit

text \<open>\<open>s.split(sep)\<close> for a separator of one character: never the empty list.\<close>

fun split_on :: "char \<Rightarrow> string \<Rightarrow> string list" where
  "split_on sep [] = [[]]"
| "split_on sep (c # cs) =
     (if c = sep then [] # split_on sep cs
      else (case split_on sep cs of
              [] \<Rightarrow> [[c]]
            | p # ps \<Rightarrow> (c # p) # ps))"

text \<open>\<open>s.rsplit(sep, 1)[0]\<close>: everything before the last separator, or all of \<open>s\<close>.\<close>

definition rsplit1_head :: "char \<Rightarrow> string \<Rightarrow> string" where
  "rsplit1_head sep s =
     (if sep \<in> set s then rev (tl (dropWhile (\<lambda>c. c \<noteq> sep) (rev s))) else s)"

text \<open>\<open>sep.join(parts)\<close>.\<close>

fun join :: "string \<Rightarrow> string list \<Rightarrow> string" where
  "join sep [] = []"
| "join sep [p] = p"
| "join sep (p # q # ps) = p @ sep @ join sep (q # ps)"

definition is_ascii_digit :: "char \<Rightarrow> bool" where
  "is_ascii_digit c = (c \<in> set ''0123456789'')"

definition digit_val :: "char \<Rightarrow> nat" where
  "digit_val c = of_char c - 48"

definition digit_char :: "nat \<Rightarrow> char" where
  "digit_char d = ''0123456789'' ! d"

text \<open>\<open>int(s)\<close> on a string of ASCII digits, and \<open>str(n)\<close> of a natural number.\<close>

definition int_of_digits :: "string \<Rightarrow> nat" where
  "int_of_digits s = foldl (\<lambda>acc c. 10 * acc + digit_val c) 0 s"

fun str_nat :: "nat \<Rightarrow> string" where
  "str_nat n = (if n < 10 then [digit_char n] else str_nat (n div 10) @ [digit_char (n mod 10)])"

declare str_nat.simps [simp del]

definition is_hex_digit :: "char \<Rightarrow> bool" where
  "is_hex_digit c = (c \<in> set ''0123456789abcdefABCDEF'')"

definition hex_val :: "char \<Rightarrow> nat" where
  "hex_val c =
     (if is_ascii_digit c then of_char c - 48
      else if c \<in> set ''abcdef'' then of_char c - 87
      else of_char c - 55)"

definition hex_char :: "nat \<Rightarrow> char" where
  "hex_char d = ''0123456789abcdef'' ! d"

definition int_of_hex :: "string \<Rightarrow> nat" where
  "int_of_hex s = foldl (\<lambda>acc c. 16 * acc + hex_val c) 0 s"

text \<open>\<open>'%x' % n\<close>.\<close>

fun hex_nat :: "nat \<Rightarrow> string" where
  "hex_nat n = (if n < 16 then [hex_char n] else hex_nat (n div 16) @ [hex_char (n mod 16)])"

declare hex_nat.simps [simp del]

section \<open>The \<open>ipaddress\<close> module\<close>

text \<open>
  The program parses and prints addresses with the standard library (CPython 3.9.5 to
  3.12). An address is its integer, with the scope identifier for IPv6; a network is
  its network address and its prefix length. The library's \<open>AddressValueError\<close> and
  \<open>NetmaskValueError\<close> never leave \<open>ip_address\<close> and \<open>ip_network\<close>, so the
  constructors return an option and the two factory functions raise \<open>ValueError\<close>.
\<close>

datatype ip_address = IPv4Address nat | IPv6Address nat "string option"

datatype ip_network = IPNetwork (network_address: ip_address) (prefixlen: nat)

fun ip_int :: "ip_address \<Rightarrow> nat" where
  "ip_int (IPv4Address a) = a"
| "ip_int (IPv6Address a _) = a"

fun version :: "ip_address \<Rightarrow> nat" where
  "version (IPv4Address _) = 4"
| "version (IPv6Address _ _) = 6"

subsection \<open>IPv4\<close>

definition parse_octet :: "string \<Rightarrow> nat option" where
  "parse_octet octet_str =
     (if octet_str = [] then None
      else if \<not> list_all is_ascii_digit octet_str then None
      else if length octet_str > 3 then None
      else if octet_str \<noteq> ''0'' \<and> hd octet_str = CHR ''0'' then None
      else (let octet_int = int_of_digits octet_str
            in if octet_int > 255 then None else Some octet_int))"

definition ipv4_int_from_string :: "string \<Rightarrow> nat option" where
  "ipv4_int_from_string ip_str =
     (if ip_str = [] then None
      else (case map parse_octet (split_on CHR ''.'' ip_str) of
              [Some a, Some b, Some c, Some d] \<Rightarrow> Some (((a * 256 + b) * 256 + c) * 256 + d)
            | _ \<Rightarrow> None))"

definition ipv4_address :: "string \<Rightarrow> nat option" where
  "ipv4_address addr_str =
     (if CHR ''/'' \<in> set addr_str then None else ipv4_int_from_string addr_str)"

definition str_ipv4 :: "nat \<Rightarrow> string" where
  "str_ipv4 a =
     join ''.'' (map str_nat
       [a div 16777216 mod 256, a div 65536 mod 256, a div 256 mod 256, a mod 256])"

text \<open>\<open>_split_optional_netmask\<close>: at most one \<open>/\<close>.\<close>

definition split_optional_netmask :: "string \<Rightarrow> (string \<times> string option) option" where
  "split_optional_netmask address =
     (case split_on CHR ''/'' address of
        [a] \<Rightarrow> Some (a, None)
      | [a, m] \<Rightarrow> Some (a, Some m)
      | _ \<Rightarrow> None)"

definition prefix_from_prefix_string :: "nat \<Rightarrow> string \<Rightarrow> nat option" where
  "prefix_from_prefix_string max_prefixlen prefixlen_str =
     (if prefixlen_str = [] then None
      else if \<not> list_all is_ascii_digit prefixlen_str then None
      else (let p = int_of_digits prefixlen_str
            in if p \<le> max_prefixlen then Some p else None))"

text \<open>\<open>n.bit_length()\<close> of a non-negative integer.\<close>

fun bit_length :: "nat \<Rightarrow> nat" where
  "bit_length n = (if n = 0 then 0 else Suc (bit_length (n div 2)))"

declare bit_length.simps [simp del]

definition count_righthand_zero_bits :: "nat \<Rightarrow> nat \<Rightarrow> nat" where
  "count_righthand_zero_bits number bits =
     (if number = 0 then bits
      else min bits (bit_length (nat (NOT (int number) AND (int number - 1)))))"

definition prefix_from_ip_int :: "nat \<Rightarrow> nat option" where
  "prefix_from_ip_int n =
     (let trailing_zeroes = count_righthand_zero_bits n 32;
          p = 32 - trailing_zeroes;
          leading_ones = drop_bit trailing_zeroes n;
          all_ones = 2 ^ p - 1
      in if leading_ones \<noteq> all_ones then None else Some p)"

definition ALL_ONES4 :: nat where
  "ALL_ONES4 = 2 ^ 32 - 1"

definition prefix_from_ip_string :: "string \<Rightarrow> nat option" where
  "prefix_from_ip_string ip_str =
     (case ipv4_int_from_string ip_str of
        None \<Rightarrow> None
      | Some n \<Rightarrow>
          (case prefix_from_ip_int n of
             Some p \<Rightarrow> Some p
           | None \<Rightarrow> prefix_from_ip_int (n XOR ALL_ONES4)))"

definition make_netmask4 :: "string \<Rightarrow> nat option" where
  "make_netmask4 arg =
     (case prefix_from_prefix_string 32 arg of
        Some p \<Rightarrow> Some p
      | None \<Rightarrow> prefix_from_ip_string arg)"

text \<open>\<open>_ip_int_from_prefix\<close>: the netmask of a prefix length.\<close>

definition ip_int_from_prefix :: "nat \<Rightarrow> nat \<Rightarrow> nat" where
  "ip_int_from_prefix all_ones p = all_ones XOR drop_bit p all_ones"

text \<open>
  \<open>IPv4Network(address, strict=False)\<close>: host bits are cleared rather than refused.
\<close>

definition ipv4_network :: "string \<Rightarrow> ip_network option" where
  "ipv4_network address =
     (case split_optional_netmask address of
        None \<Rightarrow> None
      | Some (addr, netmask_str) \<Rightarrow>
          (case ipv4_address addr of
             None \<Rightarrow> None
           | Some packed \<Rightarrow>
               (case (case netmask_str of None \<Rightarrow> Some 32 | Some m \<Rightarrow> make_netmask4 m) of
                  None \<Rightarrow> None
                | Some p \<Rightarrow>
                    (let netmask = ip_int_from_prefix ALL_ONES4 p
                     in if packed AND netmask \<noteq> packed
                        then Some (IPNetwork (IPv4Address (packed AND netmask)) p)
                        else Some (IPNetwork (IPv4Address packed) p)))))"

subsection \<open>IPv6\<close>

definition split_scope_id :: "string \<Rightarrow> (string \<times> string option) option" where
  "split_scope_id ip_str =
     (if CHR ''%'' \<notin> set ip_str then Some (ip_str, None)
      else (let addr = takeWhile (\<lambda>c. c \<noteq> CHR ''%'') ip_str;
                scope_id = tl (dropWhile (\<lambda>c. c \<noteq> CHR ''%'') ip_str)
            in if scope_id = [] \<or> CHR ''%'' \<in> set scope_id then None
               else Some (addr, Some scope_id)))"

definition parse_hextet :: "string \<Rightarrow> nat option" where
  "parse_hextet hextet_str =
     (if \<not> list_all is_hex_digit hextet_str then None
      else if length hextet_str > 4 then None
      else if hextet_str = [] then None
      else Some (int_of_hex hextet_str))"

text \<open>The loop \<open>ip_int <<= 16; ip_int |= parse_hextet(part)\<close> over some parts.\<close>

fun shift_in_hextets :: "nat \<Rightarrow> string list \<Rightarrow> nat option" where
  "shift_in_hextets n [] = Some n"
| "shift_in_hextets n (p # ps) =
     (case parse_hextet p of
        None \<Rightarrow> None
      | Some h \<Rightarrow> shift_in_hextets (push_bit 16 n OR h) ps)"

definition ipv6_int_from_string :: "string \<Rightarrow> nat option" where
  "ipv6_int_from_string ip_str =
     (if ip_str = [] then None
      else (let parts0 = split_on CHR '':'' ip_str
        in if length parts0 < 3 then None
        else (case (if CHR ''.'' \<in> set (last parts0)
                    then (case ipv4_address (last parts0) of
                            None \<Rightarrow> None
                          | Some v4 \<Rightarrow>
                              Some (butlast parts0 @
                                [hex_nat (drop_bit 16 v4 AND 65535), hex_nat (v4 AND 65535)]))
                    else Some parts0) of
                None \<Rightarrow> None
              | Some parts \<Rightarrow>
                  if length parts > 9 then None
                  else (case filter (\<lambda>i. parts ! i = []) [1..<length parts - 1] of
                          [] \<Rightarrow>
                            if length parts \<noteq> 8 then None
                            else if hd parts = [] then None
                            else if last parts = [] then None
                            else shift_in_hextets 0 parts
                        | [skip_index] \<Rightarrow>
                            (let parts_hi = (if hd parts = [] then skip_index - 1 else skip_index);
                                 parts_lo = (if last parts = [] then length parts - skip_index - 1 - 1
                                             else length parts - skip_index - 1)
                             in if hd parts = [] \<and> parts_hi \<noteq> 0 then None
                                else if last parts = [] \<and> parts_lo \<noteq> 0 then None
                                else if 8 - int (parts_hi + parts_lo) < 1 then None
                                else (case shift_in_hextets 0 (take parts_hi parts) of
                                        None \<Rightarrow> None
                                      | Some hi \<Rightarrow>
                                          shift_in_hextets
                                            (push_bit (16 * (8 - (parts_hi + parts_lo))) hi)
                                            (drop (length parts - parts_lo) parts)))
                        | _ \<Rightarrow> None))))"

definition ipv6_address :: "string \<Rightarrow> ip_address option" where
  "ipv6_address addr_str =
     (if CHR ''/'' \<in> set addr_str then None
      else (case split_scope_id addr_str of
              None \<Rightarrow> None
            | Some (a, scope_id) \<Rightarrow>
                (case ipv6_int_from_string a of
                   None \<Rightarrow> None
                 | Some n \<Rightarrow> Some (IPv6Address n scope_id))))"

text \<open>
  \<open>_compress_hextets\<close>: the first longest run of at least two \<open>0\<close> hextets becomes
  \<open>::\<close>. The loop state is (best start, best length, current start, current length).
\<close>

fun longest_zero_run :: "string list \<Rightarrow> nat \<Rightarrow> int \<times> nat \<times> int \<times> nat \<Rightarrow> int \<times> nat" where
  "longest_zero_run [] index (best_start, best_len, start, len) = (best_start, best_len)"
| "longest_zero_run (hextet # rest) index (best_start, best_len, start, len) =
     (if hextet = ''0''
      then (let len' = len + 1;
                start' = (if start = - 1 then int index else start)
            in if len' > best_len
               then longest_zero_run rest (index + 1) (start', len', start', len')
               else longest_zero_run rest (index + 1) (best_start, best_len, start', len'))
      else longest_zero_run rest (index + 1) (best_start, best_len, - 1, 0))"

definition compress_hextets :: "string list \<Rightarrow> string list" where
  "compress_hextets hextets =
     (case longest_zero_run hextets 0 (- 1, 0, - 1, 0) of
        (best_start, best_len) \<Rightarrow>
          if best_len > 1
          then (let best_end = nat best_start + best_len;
                    hextets1 = (if best_end = length hextets then hextets @ [[]] else hextets);
                    hextets2 = take (nat best_start) hextets1 @ [[]] @ drop best_end hextets1
                in if best_start = 0 then [] # hextets2 else hextets2)
          else hextets)"

definition str_ipv6 :: "nat \<Rightarrow> string" where
  "str_ipv6 a =
     join '':'' (compress_hextets (map (\<lambda>i. hex_nat (drop_bit (16 * (7 - i)) a mod 65536))
       [0, 1, 2, 3, 4, 5, 6, 7]))"

definition ALL_ONES6 :: nat where
  "ALL_ONES6 = 2 ^ 128 - 1"

text \<open>
  \<open>IPv6Network(address, strict=False)\<close>. The scope identifier survives only when no
  host bit had to be cleared.
\<close>

definition ipv6_network :: "string \<Rightarrow> ip_network option" where
  "ipv6_network address =
     (case split_optional_netmask address of
        None \<Rightarrow> None
      | Some (addr, netmask_str) \<Rightarrow>
          (case ipv6_address addr of
             None \<Rightarrow> None
           | Some a \<Rightarrow>
               (case (case netmask_str of
                        None \<Rightarrow> Some 128
                      | Some m \<Rightarrow> prefix_from_prefix_string 128 m) of
                  None \<Rightarrow> None
                | Some p \<Rightarrow>
                    (let packed = ip_int a;
                         netmask = ip_int_from_prefix ALL_ONES6 p
                     in if packed AND netmask \<noteq> packed
                        then Some (IPNetwork (IPv6Address (packed AND netmask) None) p)
                        else Some (IPNetwork a p)))))"

subsection \<open>The factory functions and \<open>str\<close>\<close>

definition ip_address :: "string \<Rightarrow> py_error + ip_address" where
  "ip_address address =
     (case ipv4_address address of
        Some a \<Rightarrow> Inr (IPv4Address a)
      | None \<Rightarrow>
          (case ipv6_address address of
             Some a \<Rightarrow> Inr a
           | None \<Rightarrow> Inl ValueError))"

text \<open>\<open>ip_network(address, strict=False)\<close>.\<close>

definition ip_network :: "string \<Rightarrow> py_error + ip_network" where
  "ip_network address =
     (case ipv4_network address of
        Some n \<Rightarrow> Inr n
      | None \<Rightarrow>
          (case ipv6_network address of
             Some n \<Rightarrow> Inr n
           | None \<Rightarrow> Inl ValueError))"

fun str_address :: "ip_address \<Rightarrow> string" where
  "str_address (IPv4Address a) = str_ipv4 a"
| "str_address (IPv6Address a scope_id) =
     (case scope_id of
        None \<Rightarrow> str_ipv6 a
      | Some s \<Rightarrow> if s = [] then str_ipv6 a else str_ipv6 a @ ''%'' @ s)"

definition str_network :: "ip_network \<Rightarrow> string" where
  "str_network n = str_address (network_address n) @ ''/'' @ str_nat (prefixlen n)"

section \<open>Validation and subnet grouping\<close>

text \<open>
  Calls to \<open>logging\<close> change no result and are left out. A Python \<open>set\<close> is a list
  without repetition and a \<open>dict\<close> an association list in insertion order; the order
  in which Python iterates over a set is not fixed, so the properties below speak of
  the set of elements of such a list.
\<close>

fun validate_ip_addresses :: "string list \<Rightarrow> string list" where
  "validate_ip_addresses [] = []"
| "validate_ip_addresses (ip # rest) =
     (case ip_address (hd (split_on CHR ''/'' ip)) of
        Inr _ \<Rightarrow> ip # validate_ip_addresses rest
      | Inl _ \<Rightarrow> validate_ip_addresses rest)"

definition set_add :: "'a \<Rightarrow> 'a list \<Rightarrow> 'a list" where
  "set_add x xs = (if x \<in> set xs then xs else xs @ [x])"

record grouping =
  ip_dict :: "(string \<times> ip_network list) list"
  existing_subnets :: "ip_network list"
  individual_ips :: "ip_network list"

definition first_three_octets :: "ip_network \<Rightarrow> string" where
  "first_three_octets network =
     rsplit1_head CHR ''.'' (str_address (network_address network))"

text \<open>\<open>ip_dict[key].append(network)\<close> on a \<open>defaultdict(list)\<close>.\<close>

definition dict_append ::
  "string \<Rightarrow> ip_network \<Rightarrow> (string \<times> ip_network list) list \<Rightarrow> (string \<times> ip_network list) list"
where
  "dict_append key network d =
     AList.update key ((case map_of d key of None \<Rightarrow> [] | Some ips \<Rightarrow> ips) @ [network]) d"

text \<open>
  The first loop: a plain address gets \<open>/32\<close> appended, the entry is parsed, and the
  network is filed as an individual address (prefix length 32) or as an explicit subnet.
\<close>

definition with_default_prefix :: "string \<Rightarrow> string" where
  "with_default_prefix entry = (if CHR ''/'' \<notin> set entry then entry @ ''/32'' else entry)"

definition add_network :: "ip_network \<Rightarrow> grouping \<Rightarrow> grouping" where
  "add_network network g =
     (if prefixlen network = 32
      then g\<lparr>ip_dict := dict_append (first_three_octets network) network (ip_dict g),
             individual_ips := set_add network (individual_ips g)\<rparr>
      else g\<lparr>existing_subnets := set_add network (existing_subnets g)\<rparr>)"

fun classify_entries :: "string list \<Rightarrow> grouping \<Rightarrow> py_error + grouping" where
  "classify_entries [] g = Inr g"
| "classify_entries (entry # rest) g =
     (case ip_network (with_default_prefix entry) of
        Inl e \<Rightarrow> Inl e
      | Inr network \<Rightarrow> classify_entries rest (add_network network g))"

text \<open>The second loop: a group whose key is that of an explicit subnet is deleted.\<close>

definition drop_covered_groups ::
  "ip_network list \<Rightarrow> (string \<times> ip_network list) list \<Rightarrow> (string \<times> ip_network list) list"
where
  "drop_covered_groups subnets d =
     fold (\<lambda>subnet. AList.delete (first_three_octets subnet)) subnets d"

text \<open>The third loop: a group of at least \<open>threshold\<close> members becomes one /24.\<close>

fun aggregate_groups ::
  "(string \<times> ip_network list) list \<Rightarrow> int \<Rightarrow> string list \<times> ip_network list
     \<Rightarrow> string list \<times> ip_network list"
where
  "aggregate_groups [] threshold (result, individual) = (result, individual)"
| "aggregate_groups ((octets, ips) # rest) threshold (result, individual) =
     (if int (length ips) \<ge> threshold
      then aggregate_groups rest threshold
             (set_add (octets @ ''.0/24'') result, filter (\<lambda>n. n \<notin> set ips) individual)
      else aggregate_groups rest threshold (result, individual))"

definition group_ips_into_subnets :: "string list \<Rightarrow> int \<Rightarrow> py_error + string list" where
  "group_ips_into_subnets addresses threshold =
     (case classify_entries addresses
             \<lparr>ip_dict = [], existing_subnets = [], individual_ips = []\<rparr> of
        Inl e \<Rightarrow> Inl e
      | Inr g \<Rightarrow>
          (case aggregate_groups (drop_covered_groups (existing_subnets g) (ip_dict g))
                  threshold ([], individual_ips g) of
             (aggregated, individual) \<Rightarrow>
               Inr (fold set_add (map str_network individual)
                     (fold set_add (map str_network (existing_subnets g)) aggregated))))"

section \<open>Reading the input and the previous output\<close>

text \<open>
  \<open>c.isspace()\<close> for the code points below 256, and \<open>s.strip()\<close>,
  \<open>s.strip(chars)\<close>, \<open>s.startswith(prefix)\<close>, \<open>s.split(sep, 1)\<close> and
  \<open>needle in s\<close>.
\<close>

definition py_isspace :: "char \<Rightarrow> bool" where
  "py_isspace c =
     (c \<in> set [CHR 0x09, CHR 0x0A, CHR 0x0B, CHR 0x0C, CHR 0x0D, CHR 0x1C, CHR 0x1D,
                CHR 0x1E, CHR 0x1F, CHR 0x20, CHR 0x85, CHR 0xA0])"

definition strip_while :: "(char \<Rightarrow> bool) \<Rightarrow> string \<Rightarrow> string" where
  "strip_while P s = rev (dropWhile P (rev (dropWhile P s)))"

definition py_strip :: "string \<Rightarrow> string" where
  "py_strip s = strip_while py_isspace s"

definition strip_chars :: "string \<Rightarrow> string \<Rightarrow> string" where
  "strip_chars chars s = strip_while (\<lambda>c. c \<in> set chars) s"

definition startswith :: "string \<Rightarrow> string \<Rightarrow> bool" where
  "startswith s pre = (take (length pre) s = pre)"

definition split1 :: "char \<Rightarrow> string \<Rightarrow> string list" where
  "split1 sep s =
     (if sep \<in> set s
      then [takeWhile (\<lambda>c. c \<noteq> sep) s, tl (dropWhile (\<lambda>c. c \<noteq> sep) s)]
      else [s])"

fun contains :: "string \<Rightarrow> string \<Rightarrow> bool" where
  "contains needle [] = (needle = [])"
| "contains needle (c # cs) = (if startswith (c # cs) needle then True else contains needle cs)"

text \<open>
  A file holds text. Reading in text mode turns \<open>\r\n\<close> and \<open>\r\<close> into \<open>\n\<close>, and
  iterating over the file yields the lines with their line ends.
\<close>

fun universal_newlines :: "string \<Rightarrow> string" where
  "universal_newlines [] = []"
| "universal_newlines [c] = (if c = CHR 0x0D then [CHR 0x0A] else [c])"
| "universal_newlines (c # d # cs) =
     (if c = CHR 0x0D
      then (if d = CHR 0x0A then CHR 0x0A # universal_newlines cs
            else CHR 0x0A # universal_newlines (d # cs))
      else c # universal_newlines (d # cs))"

fun file_lines :: "string \<Rightarrow> string list" where
  "file_lines [] = []"
| "file_lines (c # cs) =
     (if c = CHR 0x0A then [c] # file_lines cs
      else (case file_lines cs of
              [] \<Rightarrow> [[c]]
            | l # ls \<Rightarrow> (c # l) # ls))"

definition read_lines :: "string \<Rightarrow> string list" where
  "read_lines text = file_lines (universal_newlines text)"

text \<open>
  The state of the run: the files of the working tree, the paths that cannot be opened
  for writing, and what has been asked of the version-control collaborator.
\<close>

datatype git_event = Pull | CommitAndPush

record world =
  files :: "string \<rightharpoonup> string"
  unwritable :: "string \<Rightarrow> bool"
  git_log :: "git_event list"

definition load_input_file_entries :: "(string \<rightharpoonup> string) \<Rightarrow> string \<Rightarrow> py_error + string list" where
  "load_input_file_entries fs input_file_path =
     (case fs input_file_path of
        None \<Rightarrow> Inl SystemExit
      | Some text \<Rightarrow> Inr (map py_strip (read_lines text)))"

fun load_lines :: "string list \<Rightarrow> (string \<times> string) list \<Rightarrow> (string \<times> string) list" where
  "load_lines [] entries = entries"
| "load_lines (line # rest) entries =
     (if py_strip line \<noteq> [] \<and> \<not> startswith line ''#''
      then (let parts = split1 CHR '' '' line;
                entry = py_strip (hd parts);
                comment = (if length parts > 1 then py_strip (strip_chars ''# '' (parts ! 1))
                           else [])
            in load_lines rest (AList.update entry comment entries))
      else load_lines rest entries)"

definition load_existing_output_file_entries ::
  "(string \<rightharpoonup> string) \<Rightarrow> string \<Rightarrow> (string \<times> string) list"
where
  "load_existing_output_file_entries fs output_file_path =
     (case fs output_file_path of
        None \<Rightarrow> []
      | Some text \<Rightarrow> load_lines (read_lines text) [])"

definition remove_duplicates :: "string list \<Rightarrow> string list" where
  "remove_duplicates addresses = sort (remdups addresses)"

section \<open>Sorting, annotating and writing\<close>

text \<open>
  \<open>sorted\<close> computes the key of every item first (\<open>ip_network\<close> may raise
  \<open>ValueError\<close>), then compares keys as tuples: two addresses are compared only under
  equal prefix lengths, and comparing an IPv4 with an IPv6 address raises \<open>TypeError\<close>.
  The sort is stable. The inner function \<open>sort_key\<close> of the source is
  \<open>entry_sort_key\<close> here.
\<close>

type_synonym keyed_item = "(nat \<times> ip_address) \<times> (string \<times> string)"

definition entry_sort_key :: "string \<Rightarrow> py_error + (nat \<times> ip_address)" where
  "entry_sort_key entry =
     (case ip_network entry of
        Inl e \<Rightarrow> Inl e
      | Inr network \<Rightarrow> Inr (prefixlen network, network_address network))"

fun keyed_items :: "(string \<times> string) list \<Rightarrow> py_error + keyed_item list" where
  "keyed_items [] = Inr []"
| "keyed_items (item # rest) =
     (case entry_sort_key (fst item) of
        Inl e \<Rightarrow> Inl e
      | Inr k \<Rightarrow>
          (case keyed_items rest of
             Inl e \<Rightarrow> Inl e
           | Inr ks \<Rightarrow> Inr ((k, item) # ks)))"

definition comparable :: "keyed_item list \<Rightarrow> bool" where
  "comparable ks =
     list_all (\<lambda>x. list_all (\<lambda>y.
        if fst (fst x) = fst (fst y) then version (snd (fst x)) = version (snd (fst y))
        else True) ks) ks"

definition order_key :: "keyed_item \<Rightarrow> nat \<times> nat" where
  "order_key x = (fst (fst x), ip_int (snd (fst x)))"

definition sort_entries_by_cidr :: "(string \<times> string) list \<Rightarrow> py_error + (string \<times> string) list" where
  "sort_entries_by_cidr entries =
     (case keyed_items entries of
        Inl e \<Rightarrow> Inl e
      | Inr ks \<Rightarrow>
          if comparable ks then Inr (map snd (sort_key order_key ks))
          else Inl TypeError)"

text \<open>
  The registry lookup is a collaborator: for an address it answers with the three
  fields (a missing field is \<open>None\<close>), or the call raises and the answer is \<open>None\<close>.
\<close>

record whois_response =
  country :: "string option"
  region :: "string option"
  isp :: "string option"

definition str_field :: "string option \<Rightarrow> string" where
  "str_field f = (case f of None \<Rightarrow> ''None'' | Some s \<Rightarrow> s)"

definition whois_comment :: "whois_response \<Rightarrow> string" where
  "whois_comment r =
     str_field (country r) @ '' | '' @ str_field (region r) @ '' | '' @ str_field (isp r)"

fun fetch_whois_info ::
  "(string \<Rightarrow> whois_response option) \<Rightarrow> string list \<Rightarrow> (string \<times> string) list
     \<Rightarrow> (string \<times> string) list \<Rightarrow> (string \<times> string) list"
where
  "fetch_whois_info whois [] existing_entries whois_info = whois_info"
| "fetch_whois_info whois (entry # rest) existing_entries whois_info =
     (case map_of existing_entries entry of
        None \<Rightarrow>
          (case whois (hd (split_on CHR ''/'' entry)) of
             Some response \<Rightarrow>
               fetch_whois_info whois rest existing_entries
                 (AList.update entry (whois_comment response) whois_info)
           | None \<Rightarrow> fetch_whois_info whois rest existing_entries whois_info)
      | Some comment \<Rightarrow>
          fetch_whois_info whois rest existing_entries (AList.update entry comment whois_info))"

record config =
  debug :: bool
  repo_path :: string
  input_files_to_process :: "string list"
  threshold_group_ips_into_subnets :: int
  fg_max_entries :: int
  fg_max_comment_length :: int
  fg_max_size_bytes :: int

text \<open>\<open>s[:k]\<close>: a negative \<open>k\<close> counts from the end.\<close>

definition slice_to :: "string \<Rightarrow> int \<Rightarrow> string" where
  "slice_to s k = (if k < 0 then take (nat (int (length s) + k)) s else take (nat k) s)"

definition render_line :: "int \<Rightarrow> string \<times> string \<Rightarrow> string" where
  "render_line max_comment_length item =
     (case item of
        (entry, comment) \<Rightarrow>
          if comment \<noteq> []
          then entry @ '' '' @
                 (if int (length comment) > max_comment_length - 2
                  then ''# '' @ slice_to comment (max_comment_length - 5) @ ''...'' @ [CHR 0x0A]
                  else ''# '' @ comment @ [CHR 0x0A])
          else entry @ [CHR 0x0A])"

text \<open>The size of a text written as UTF-8: two bytes for a code point from 128 to 255.\<close>

definition utf8_size :: "string \<Rightarrow> nat" where
  "utf8_size text = sum_list (map (\<lambda>c. if of_char c < (128 :: nat) then 1 else 2) text)"

text \<open>
  \<open>write_to_output_file\<close>: the file is opened for writing (which truncates it) and
  written before its size is measured.
\<close>

definition write_to_output_file ::
  "(string \<times> string) list \<Rightarrow> string \<Rightarrow> config \<Rightarrow> world \<Rightarrow> bool \<times> world"
where
  "write_to_output_file entries file_path cfg w =
     (if int (length entries) > fg_max_entries cfg then (False, w)
      else if unwritable w file_path then (False, w)
      else (let text = concat (map (render_line (fg_max_comment_length cfg)) entries);
                w' = w\<lparr>files := (files w)(file_path \<mapsto> text)\<rparr>
            in if int (utf8_size text) > fg_max_size_bytes cfg then (False, w')
               else (True, w')))"

section \<open>The pipeline and the run\<close>

definition merge_dicts :: "(string \<times> string) list \<Rightarrow> (string \<times> string) list \<Rightarrow> (string \<times> string) list" where
  "merge_dicts d1 d2 = fold (\<lambda>kv. AList.update (fst kv) (snd kv)) d2 d1"

definition process_lists ::
  "(string \<Rightarrow> whois_response option) \<Rightarrow> string \<Rightarrow> string \<Rightarrow> config \<Rightarrow> world
     \<Rightarrow> py_error + ((bool \<times> nat \<times> nat) \<times> world)"
where
  "process_lists whois input_file_path output_file_path cfg w =
     (case load_input_file_entries (files w) input_file_path of
        Inl e \<Rightarrow> Inl e
      | Inr raw_addresses \<Rightarrow>
          (let unique_addresses = remove_duplicates raw_addresses;
               valid_addresses = validate_ip_addresses unique_addresses
           in case group_ips_into_subnets valid_addresses (threshold_group_ips_into_subnets cfg) of
                Inl e \<Rightarrow> Inl e
              | Inr grouped_addresses \<Rightarrow>
                  (let existing_entries = load_existing_output_file_entries (files w) output_file_path;
                       looked_up_addresses = fetch_whois_info whois grouped_addresses existing_entries [];
                       current_entries = remdups grouped_addresses;
                       added_entries = filter (\<lambda>e. map_of existing_entries e = None) current_entries;
                       removed_entries = filter (\<lambda>e. e \<notin> set current_entries) (map fst existing_entries);
                       kept_entries = fold AList.delete removed_entries existing_entries
                   in case sort_entries_by_cidr (merge_dicts kept_entries looked_up_addresses) of
                        Inl e \<Rightarrow> Inl e
                      | Inr sorted_entries \<Rightarrow>
                          (case write_to_output_file sorted_entries output_file_path cfg w of
                             (success, w') \<Rightarrow>
                               Inr ((success, length added_entries, length removed_entries), w')))))"

text \<open>\<open>os.path.join\<close> (POSIX).\<close>

definition path_join2 :: "string \<Rightarrow> string \<Rightarrow> string" where
  "path_join2 path b =
     (if startswith b ''/'' then b
      else if path = [] then path @ b
      else if last path = CHR ''/'' then path @ b
      else path @ ''/'' @ b)"

definition path_join :: "string \<Rightarrow> string list \<Rightarrow> string" where
  "path_join a ps = fold (\<lambda>b path. path_join2 path b) ps a"

definition output_path_of :: "config \<Rightarrow> string \<Rightarrow> string" where
  "output_path_of cfg file_name =
     path_join (repo_path cfg)
       [''output'',
        ''blocklist-industrial'' @ (if contains ''manual'' file_name then ''-manual'' else [])
          @ ''.txt'']"

text \<open>
  The loop of \<open>main\<close> over the input files. \<open>processed\<close> is \<open>None\<close> while the
  variable is unbound.
\<close>

fun process_files ::
  "(string \<Rightarrow> whois_response option) \<Rightarrow> config \<Rightarrow> string list \<Rightarrow> bool option \<times> nat \<times> nat
     \<Rightarrow> world \<Rightarrow> py_error + ((bool option \<times> nat \<times> nat) \<times> world)"
where
  "process_files whois cfg [] acc w = Inr (acc, w)"
| "process_files whois cfg (file_name # rest) acc w =
     (case acc of
        (processed, total_additions, total_deletions) \<Rightarrow>
          (case process_lists whois (path_join (repo_path cfg) [file_name])
                  (output_path_of cfg file_name) cfg w of
             Inl e \<Rightarrow> Inl e
           | Inr ((processed', additions, deletions), w') \<Rightarrow>
               process_files whois cfg rest
                 (Some processed', total_additions + additions, total_deletions + deletions) w'))"

text \<open>
  \<open>main\<close>, after the configuration is loaded. Whether the remote has changed and what a
  pull does to the working tree are given by the version-control collaborator.
\<close>

definition main ::
  "(string \<Rightarrow> whois_response option) \<Rightarrow> bool \<Rightarrow> ((string \<rightharpoonup> string) \<Rightarrow> (string \<rightharpoonup> string))
     \<Rightarrow> config \<Rightarrow> world \<Rightarrow> py_error + world"
where
  "main whois remote_changed pull cfg w =
     (if remote_changed \<or> debug cfg
      then (case process_files whois cfg (input_files_to_process cfg) (None, 0, 0)
                   (w\<lparr>files := pull (files w), git_log := git_log w @ [Pull]\<rparr>) of
              Inl e \<Rightarrow> Inl e
            | Inr ((processed, total_additions, total_deletions), w') \<Rightarrow>
                (case processed of
                   None \<Rightarrow> Inl UnboundLocalError
                 | Some ok \<Rightarrow>
                     if ok \<and> \<not> debug cfg
                     then Inr (w'\<lparr>git_log := git_log w' @ [CommitAndPush]\<rparr>)
                     else Inr w'))
      else Inr w)"

section \<open>Notions used to state the properties\<close>

text \<open>
  The order of the sorter on networks: prefix length first, then the address as a number.
\<close>

definition cidr_le :: "ip_network \<Rightarrow> ip_network \<Rightarrow> bool" where
  "cidr_le m n =
     (if prefixlen m = prefixlen n
      then ip_int (network_address m) \<le> ip_int (network_address n)
      else prefixlen m < prefixlen n)"

text \<open>
  The mappings that the sorter accepts: every key parses, and two keys of equal prefix
  length are of the same IP version.
\<close>

definition sortable :: "(string \<times> string) list \<Rightarrow> bool" where
  "sortable entries =
     list_all (\<lambda>x. list_all (\<lambda>y.
        (case (ip_network (fst x), ip_network (fst y)) of
           (Inr m, Inr n) \<Rightarrow>
             (if prefixlen m = prefixlen n
              then version (network_address m) = version (network_address n)
              else True)
         | _ \<Rightarrow> False)) entries) entries"

text \<open>
  For the parsed input \<open>ns\<close> of the grouping: the individual addresses filed under a
  key, whether an explicit subnet has that key, and whether the key is aggregated.
\<close>

definition group_of :: "ip_network list \<Rightarrow> string \<Rightarrow> ip_network list" where
  "group_of ns k = filter (\<lambda>n. prefixlen n = 32 \<and> first_three_octets n = k) ns"

definition covered :: "ip_network list \<Rightarrow> string \<Rightarrow> bool" where
  "covered ns k = (k \<in> first_three_octets ` {n \<in> set ns. prefixlen n \<noteq> 32})"

definition aggregated :: "ip_network list \<Rightarrow> int \<Rightarrow> string \<Rightarrow> bool" where
  "aggregated ns t k =
     (group_of ns k \<noteq> [] \<and> \<not> covered ns k \<and> t \<le> int (length (group_of ns k)))"

section \<open>Example inputs\<close>

definition example_config :: config where
  "example_config =
     \<lparr>debug = False, repo_path = ''/repo'',
      input_files_to_process = [''a.txt'', ''manual.txt''],
      threshold_group_ips_into_subnets = 3, fg_max_entries = 1,
      fg_max_comment_length = 40, fg_max_size_bytes = 1000\<rparr>"

definition example_world :: world where
  "example_world =
     \<lparr>files = [''/repo/a.txt'' \<mapsto> ''1.2.3.4'' @ [CHR 0x0A] @ ''5.6.7.8'' @ [CHR 0x0A],
               ''/repo/manual.txt'' \<mapsto> ''9.9.9.9'' @ [CHR 0x0A]],
      unwritable = (\<lambda>path. False), git_log = []\<rparr>"

definition example_whois :: "string \<Rightarrow> whois_response option" where
  "example_whois address = Some \<lparr>country = Some ''US'', region = None, isp = Some ''Example''\<rparr>"

definition failing_whois :: "string \<Rightarrow> whois_response option" where
  "failing_whois address = None"

definition small_size_config :: config where
  "small_size_config =
     \<lparr>debug = False, repo_path = ''/repo'', input_files_to_process = [''a.txt''],
      threshold_group_ips_into_subnets = 3, fg_max_entries = 100,
      fg_max_comment_length = 40, fg_max_size_bytes = 10\<rparr>"

definition previous_output_world :: world where
  "previous_output_world =
     \<lparr>files = [''/repo/output/blocklist-industrial.txt'' \<mapsto> ''9.9.9.9/32'' @ [CHR 0x0A]],
      unwritable = (\<lambda>path. False), git_log = []\<rparr>"

definition roomy_config :: config where
  "roomy_config =
     \<lparr>debug = False, repo_path = ''/repo'', input_files_to_process = [''a.txt''],
      threshold_group_ips_into_subnets = 3, fg_max_entries = 100,
      fg_max_comment_length = 40, fg_max_size_bytes = 1000\<rparr>"

definition empty_world :: world where
  "empty_world = \<lparr>files = Map.empty, unwritable = (\<lambda>path. False), git_log = []\<rparr>"

section \<open>Evaluation rules\<close>

lemmas str_defs =
  str_network_def str_ipv4_def str_ipv6_def compress_hextets_def str_nat.simps hex_nat.simps
  digit_char_def hex_char_def

lemmas ip_defs =
  ip_network_def ip_address_def ipv4_network_def ipv6_network_def split_optional_netmask_def
  ipv4_address_def ipv4_int_from_string_def parse_octet_def is_ascii_digit_def int_of_digits_def
  digit_val_def make_netmask4_def prefix_from_prefix_string_def ip_int_from_prefix_def
  ALL_ONES4_def ALL_ONES6_def prefix_from_ip_string_def prefix_from_ip_int_def
  count_righthand_zero_bits_def bit_length.simps ipv6_address_def ipv6_int_from_string_def
  split_scope_id_def parse_hextet_def is_hex_digit_def int_of_hex_def hex_val_def

lemmas grp_defs =
  group_ips_into_subnets_def with_default_prefix_def add_network_def set_add_def
  dict_append_def first_three_octets_def rsplit1_head_def drop_covered_groups_def
  AList.update_def

lemmas io_defs =
  py_isspace_def strip_while_def py_strip_def strip_chars_def startswith_def split1_def
  read_lines_def load_input_file_entries_def load_existing_output_file_entries_def
  remove_duplicates_def entry_sort_key_def comparable_def order_key_def
  sort_entries_by_cidr_def str_field_def whois_comment_def slice_to_def render_line_def
  utf8_size_def write_to_output_file_def merge_dicts_def process_lists_def path_join2_def
  path_join_def output_path_of_def main_def less_eq_prod_def

lemmas example_defs =
  example_config_def example_world_def example_whois_def failing_whois_def
  small_size_config_def previous_output_world_def roomy_config_def empty_world_def

section \<open>The sorter\<close>

lemma entry_sort_key_Inr:
  "entry_sort_key e = Inr k \<longleftrightarrow> ip_network e = Inr (IPNetwork (snd k) (fst k))"
  by (cases "ip_network e"; cases k) (auto simp: entry_sort_key_def)

lemma keyed_items_Inr:
  "keyed_items entries = Inr ks \<Longrightarrow>
     map snd ks = entries \<and> list_all (\<lambda>x. ip_network (fst (snd x)) = Inr (IPNetwork (snd (fst x)) (fst (fst x)))) ks"
proof (induction entries arbitrary: ks)
  case Nil
  then show ?case by simp
next
  case (Cons item rest)
  then show ?case
    by (auto split: sum.splits simp: entry_sort_key_Inr)
qed

lemma keyed_items_total:
  "list_all (\<lambda>item. \<exists>n. ip_network (fst item) = Inr n) entries \<Longrightarrow> \<exists>ks. keyed_items entries = Inr ks"
proof (induction entries)
  case Nil
  then show ?case by simp
next
  case (Cons item rest)
  then show ?case
    by (auto split: sum.splits simp: entry_sort_key_def)
qed

lemma order_key_le:
  "order_key x \<le> order_key y \<longleftrightarrow>
     cidr_le (IPNetwork (snd (fst x)) (fst (fst x))) (IPNetwork (snd (fst y)) (fst (fst y)))"
  by (auto simp: order_key_def cidr_le_def less_eq_prod_def)

lemma sorted_by_order_key:
  "sorted_wrt cidr_le (map (\<lambda>x. IPNetwork (snd (fst x)) (fst (fst x))) (sort_key order_key ks))"
proof -
  have "sorted (map order_key (sort_key order_key ks))"
    by (rule sorted_sort_key)
  then show ?thesis
    by (simp add: sorted_wrt_map order_key_le sorted_map)
qed

lemma sort_entries_Inr:
  assumes "sort_entries_by_cidr entries = Inr r"
  obtains ks where "keyed_items entries = Inr ks" "comparable ks" "r = map snd (sort_key order_key ks)"
  using assms by (auto simp: sort_entries_by_cidr_def split: sum.splits if_splits)

lemma sort_entries_sorted:
  assumes "sort_entries_by_cidr entries = Inr r"
  shows "\<exists>ns. map (\<lambda>item. ip_network (fst item)) r = map Inr ns \<and> sorted_wrt cidr_le ns"
proof -
  from assms obtain ks where ks: "keyed_items entries = Inr ks" "r = map snd (sort_key order_key ks)"
    by (rule sort_entries_Inr)
  let ?net = "\<lambda>x::keyed_item. IPNetwork (snd (fst x)) (fst (fst x))"
  from keyed_items_Inr [OF ks(1)]
  have "\<forall>x \<in> set ks. ip_network (fst (snd x)) = Inr (?net x)"
    by (simp add: list_all_iff)
  then have "map (\<lambda>item. ip_network (fst item)) r = map Inr (map ?net (sort_key order_key ks))"
    by (simp add: ks(2))
  with sorted_by_order_key [of ks] show ?thesis by blast
qed

lemma sort_entries_mset:
  assumes "sort_entries_by_cidr entries = Inr r"
  shows "mset r = mset entries"
proof -
  from assms obtain ks where ks: "keyed_items entries = Inr ks" "r = map snd (sort_key order_key ks)"
    by (rule sort_entries_Inr)
  have "mset r = image_mset snd (mset ks)" by (simp add: ks(2))
  also have "\<dots> = mset (map snd ks)" by simp
  also have "\<dots> = mset entries" using keyed_items_Inr [OF ks(1)] by simp
  finally show ?thesis .
qed

lemma comparable_iff:
  "comparable ks \<longleftrightarrow>
     (\<forall>x \<in> set ks. \<forall>y \<in> set ks. fst (fst x) = fst (fst y) \<longrightarrow> version (snd (fst x)) = version (snd (fst y)))"
  unfolding comparable_def list_all_iff by simp

lemma sortable_iff:
  "sortable entries \<longleftrightarrow>
     (\<forall>x \<in> set entries. \<exists>m. ip_network (fst x) = Inr m)
     \<and> (\<forall>x \<in> set entries. \<forall>y \<in> set entries. \<forall>m n.
          ip_network (fst x) = Inr m \<longrightarrow> ip_network (fst y) = Inr n \<longrightarrow> prefixlen m = prefixlen n
            \<longrightarrow> version (network_address m) = version (network_address n))"
  (is "?L \<longleftrightarrow> ?P \<and> ?Q")
proof
  assume l: ?L
  have pair: "case (ip_network (fst x), ip_network (fst y)) of
           (Inr m, Inr n) \<Rightarrow>
             (if prefixlen m = prefixlen n
              then version (network_address m) = version (network_address n)
              else True)
         | _ \<Rightarrow> False" if "x \<in> set entries" "y \<in> set entries" for x y
    using l that unfolding sortable_def list_all_iff by blast
  have p: ?P
  proof
    fix x assume "x \<in> set entries"
    from pair [OF this this] show "\<exists>m. ip_network (fst x) = Inr m"
      by (cases "ip_network (fst x)") simp_all
  qed
  have q: ?Q
  proof (intro ballI allI impI)
    fix x y m n
    assume "x \<in> set entries" "y \<in> set entries"
      and m: "ip_network (fst x) = Inr m" and n: "ip_network (fst y) = Inr n"
      and eq: "prefixlen m = prefixlen n"
    from pair [OF this(1,2)] m n eq
    show "version (network_address m) = version (network_address n)" by simp
  qed
  from p q show "?P \<and> ?Q" ..
next
  assume pq: "?P \<and> ?Q"
  have "case (ip_network (fst x), ip_network (fst y)) of
           (Inr m, Inr n) \<Rightarrow>
             (if prefixlen m = prefixlen n
              then version (network_address m) = version (network_address n)
              else True)
         | _ \<Rightarrow> False" if x: "x \<in> set entries" and y: "y \<in> set entries" for x y
  proof -
    from pq x obtain m where m: "ip_network (fst x) = Inr m" by blast
    from pq y obtain n where n: "ip_network (fst y) = Inr n" by blast
    from pq x y m n have "prefixlen m = prefixlen n \<longrightarrow> version (network_address m) = version (network_address n)"
      by blast
    with m n show ?thesis by simp
  qed
  then show ?L unfolding sortable_def list_all_iff by blast
qed

lemma keyed_items_keys:
  assumes "keyed_items entries = Inr ks"
  shows "ks = map (\<lambda>item. ((case ip_network (fst item) of Inr n \<Rightarrow> (prefixlen n, network_address n)), item)) entries"
  using assms
proof (induction entries arbitrary: ks)
  case Nil
  then show ?case by simp
next
  case (Cons item rest)
  from Cons.prems obtain k ks' where k: "entry_sort_key (fst item) = Inr k"
    and rest: "keyed_items rest = Inr ks'" and ks: "ks = (k, item) # ks'"
    by (auto split: sum.splits)
  from k have "(case ip_network (fst item) of Inr n \<Rightarrow> (prefixlen n, network_address n)) = k"
    by (cases "ip_network (fst item)") (auto simp: entry_sort_key_def)
  with Cons.IH [OF rest] ks show ?case by simp
qed

lemma keyed_items_parses:
  "keyed_items entries = Inr ks \<Longrightarrow> x \<in> set entries \<Longrightarrow> \<exists>m. ip_network (fst x) = Inr m"
proof (induction entries arbitrary: ks)
  case Nil
  then show ?case by simp
next
  case (Cons item rest)
  from Cons.prems(1) obtain k ks' where k: "entry_sort_key (fst item) = Inr k"
    and rest: "keyed_items rest = Inr ks'"
    by (auto split: sum.splits)
  from k have "\<exists>m. ip_network (fst item) = Inr m"
    by (cases "ip_network (fst item)") (auto simp: entry_sort_key_def)
  with Cons.IH [OF rest] Cons.prems(2) show ?case by auto
qed

lemma comparable_keys:
  assumes "\<forall>x \<in> set entries. \<exists>m. ip_network (fst x) = Inr m"
  shows "comparable (map (\<lambda>item. ((case ip_network (fst item) of Inr n \<Rightarrow> (prefixlen n, network_address n)), item)) entries)
     \<longleftrightarrow> (\<forall>x \<in> set entries. \<forall>y \<in> set entries. \<forall>m n.
          ip_network (fst x) = Inr m \<longrightarrow> ip_network (fst y) = Inr n \<longrightarrow> prefixlen m = prefixlen n
            \<longrightarrow> version (network_address m) = version (network_address n))"
  (is "?C \<longleftrightarrow> ?Q")
proof
  assume c: ?C
  show ?Q
  proof (intro ballI allI impI)
    fix x y m n
    assume x: "x \<in> set entries" and y: "y \<in> set entries"
      and m: "ip_network (fst x) = Inr m" and n: "ip_network (fst y) = Inr n"
      and eq: "prefixlen m = prefixlen n"
    let ?k = "\<lambda>item. ((case ip_network (fst item) of Inr n \<Rightarrow> (prefixlen n, network_address n)), item)"
    from x y have "?k x \<in> set (map ?k entries)" "?k y \<in> set (map ?k entries)" by simp_all
    with c have "fst (fst (?k x)) = fst (fst (?k y)) \<longrightarrow> version (snd (fst (?k x))) = version (snd (fst (?k y)))"
      unfolding comparable_iff by blast
    with m n eq show "version (network_address m) = version (network_address n)" by simp
  qed
next
  assume q: ?Q
  let ?k = "\<lambda>item. ((case ip_network (fst item) of Inr n \<Rightarrow> (prefixlen n, network_address n)), item)"
  have "fst (fst kx) = fst (fst ky) \<longrightarrow> version (snd (fst kx)) = version (snd (fst ky))"
    if "kx \<in> set (map ?k entries)" "ky \<in> set (map ?k entries)" for kx ky
  proof -
    from that obtain x y where x: "x \<in> set entries" "kx = ?k x" and y: "y \<in> set entries" "ky = ?k y"
      by auto
    from assms x(1) obtain m where m: "ip_network (fst x) = Inr m" by blast
    from assms y(1) obtain n where n: "ip_network (fst y) = Inr n" by blast
    from q x(1) y(1) m n have "prefixlen m = prefixlen n \<longrightarrow> version (network_address m) = version (network_address n)"
      by blast
    with x(2) y(2) m n show ?thesis by simp
  qed
  then show ?C unfolding comparable_iff by blast
qed

lemma sort_entries_returns_iff:
  "(\<exists>r. sort_entries_by_cidr entries = Inr r) \<longleftrightarrow> sortable entries"
proof
  let ?k = "\<lambda>item. ((case ip_network (fst item) of Inr n \<Rightarrow> (prefixlen n, network_address n)), item)"
  assume "\<exists>r. sort_entries_by_cidr entries = Inr r"
  then obtain r where "sort_entries_by_cidr entries = Inr r" ..
  then obtain ks where ks: "keyed_items entries = Inr ks" and cmp: "comparable ks"
    by (rule sort_entries_Inr)
  from keyed_items_parses [OF ks]
  have p: "\<forall>x \<in> set entries. \<exists>m. ip_network (fst x) = Inr m" by blast
  have ks_eq: "ks = map ?k entries" by (rule keyed_items_keys [OF ks])
  have c: "comparable (map ?k entries)" using cmp unfolding ks_eq .
  have q: "\<forall>x \<in> set entries. \<forall>y \<in> set entries. \<forall>m n.
          ip_network (fst x) = Inr m \<longrightarrow> ip_network (fst y) = Inr n \<longrightarrow> prefixlen m = prefixlen n
            \<longrightarrow> version (network_address m) = version (network_address n)"
    by (rule iffD1 [OF comparable_keys [OF p] c])
  show "sortable entries"
    by (rule iffD2 [OF sortable_iff conjI [OF p q]])
next
  let ?k = "\<lambda>item. ((case ip_network (fst item) of Inr n \<Rightarrow> (prefixlen n, network_address n)), item)"
  assume "sortable entries"
  then have pq: "(\<forall>x \<in> set entries. \<exists>m. ip_network (fst x) = Inr m)
     \<and> (\<forall>x \<in> set entries. \<forall>y \<in> set entries. \<forall>m n.
          ip_network (fst x) = Inr m \<longrightarrow> ip_network (fst y) = Inr n \<longrightarrow> prefixlen m = prefixlen n
            \<longrightarrow> version (network_address m) = version (network_address n))"
    by (rule iffD1 [OF sortable_iff])
  from pq have p: "\<forall>x \<in> set entries. \<exists>m. ip_network (fst x) = Inr m" ..
  from pq have q: "\<forall>x \<in> set entries. \<forall>y \<in> set entries. \<forall>m n.
          ip_network (fst x) = Inr m \<longrightarrow> ip_network (fst y) = Inr n \<longrightarrow> prefixlen m = prefixlen n
            \<longrightarrow> version (network_address m) = version (network_address n)" ..
  from p have "list_all (\<lambda>item. \<exists>n. ip_network (fst item) = Inr n) entries"
    unfolding list_all_iff .
  then obtain ks where ks: "keyed_items entries = Inr ks"
    using keyed_items_total by blast
  have ks_eq: "ks = map ?k entries" by (rule keyed_items_keys [OF ks])
  have "comparable (map ?k entries)" by (rule iffD2 [OF comparable_keys [OF p] q])
  then have "comparable ks" unfolding ks_eq .
  with ks show "\<exists>r. sort_entries_by_cidr entries = Inr r"
    by (simp add: sort_entries_by_cidr_def)
qed

text \<open>
  What the sorter returns is in the order of the prefix length, then of the address as a
  number, and is a permutation of its argument.
\<close>

lemma sort_entries_ordered:
  assumes "sort_entries_by_cidr entries = Inr r"
  shows "mset r = mset entries
     \<and> (\<exists>ns. map (\<lambda>item. ip_network (fst item)) r = map Inr ns \<and> sorted_wrt cidr_le ns)"
  using sort_entries_mset [OF assms] sort_entries_sorted [OF assms] by simp

text \<open>
  C7. The claim: for every entry-to-comment mapping, \<open>sort_entries_by_cidr\<close> orders the
  entries by prefix length ascending, then by the network address as a number; the three
  entries of the example come out as \<open>10.0.0.0/24\<close>, \<open>10.0.1.0/24\<close>, \<open>10.0.0.1/32\<close>.
  The example holds, and so does the order for an IPv4 and an IPv6 entry of different
  prefix lengths and for IPv6 entries alone. But the key is the pair of the prefix length
  and the address object: when an IPv4 and an IPv6 entry have the same prefix length,
  \<open>sorted\<close> compares the two addresses and Python raises \<open>TypeError\<close>. The two lines
  \<open>10.0.0.0/24\<close> and \<open>2001:d00::/24\<close> pass \<open>validate_ip_addresses\<close>, leave
  \<open>group_ips_into_subnets\<close> as they are, and the exception leaves \<open>process_lists\<close>:
  nothing is ordered and nothing is written.
\<close>

theorem C7_equal_prefix_mixed_versions_raise:
  "sort_entries_by_cidr [(''10.0.0.0/24'', c1), (''2001:d00::/24'', c2)] = Inl TypeError
   \<and> sort_entries_by_cidr [(''2001:d00::/25'', c1), (''10.0.0.0/24'', c2)]
       = Inr [(''10.0.0.0/24'', c2), (''2001:d00::/25'', c1)]
   \<and> sort_entries_by_cidr [(''2001:d00::/25'', c1), (''2001:d00::/24'', c2)]
       = Inr [(''2001:d00::/24'', c2), (''2001:d00::/25'', c1)]
   \<and> sort_entries_by_cidr [(''10.0.0.0/24'', c1), (''10.0.0.1/32'', c2), (''10.0.1.0/24'', c3)]
       = Inr [(''10.0.0.0/24'', c1), (''10.0.1.0/24'', c3), (''10.0.0.1/32'', c2)]
   \<and> validate_ip_addresses [''10.0.0.0/24'', ''2001:d00::/24'']
       = [''10.0.0.0/24'', ''2001:d00::/24'']
   \<and> group_ips_into_subnets [''10.0.0.0/24'', ''2001:d00::/24''] 3
       = Inr [''10.0.0.0/24'', ''2001:d00::/24'']
   \<and> process_lists example_whois ''/repo/a.txt'' ''/repo/output/blocklist-industrial.txt''
         roomy_config
         \<lparr>files = [''/repo/a.txt'' \<mapsto>
                     ''10.0.0.0/24'' @ [CHR 0x0A] @ ''2001:d00::/24'' @ [CHR 0x0A]],
          unwritable = (\<lambda>path. False), git_log = []\<rparr>
       = Inl TypeError"
  by (simp add: io_defs grp_defs ip_defs str_defs example_defs)

text \<open>
  C10. Whenever \<open>sort_entries_by_cidr\<close> returns, the result holds exactly the items of
  its argument: the same keys with the same comments, each once. The argument is a value
  of the model and the function has no state, so the caller's mapping is as it was. The
  function returns exactly for the mappings that are \<open>sortable\<close>.
\<close>

theorem C10_sort_keeps_every_item:
  "(sort_entries_by_cidr entries = Inr r \<longrightarrow>
      mset r = mset entries
      \<and> (distinct (map fst entries) \<longrightarrow> distinct (map fst r) \<and> map_of r = map_of entries))
   \<and> ((\<exists>r'. sort_entries_by_cidr entries = Inr r') \<longleftrightarrow> sortable entries)"
proof (intro conjI impI)
  assume r: "sort_entries_by_cidr entries = Inr r"
  then show m: "mset r = mset entries" by (rule sort_entries_mset)
  assume d: "distinct (map fst entries)"
  from m have "mset (map fst r) = mset (map fst entries)" by simp
  with d show d': "distinct (map fst r)" by (metis distinct_count_atmost_1 set_mset_mset)
  from m have "set r = set entries" by (rule mset_eq_setD)
  with d d' show "map_of r = map_of entries" by (simp add: map_of_inject_set)
next
  show "(\<exists>r'. sort_entries_by_cidr entries = Inr r') \<longleftrightarrow> sortable entries"
    by (rule sort_entries_returns_iff)
qed

theorem C10_witness:
  "sort_entries_by_cidr [(''10.0.1.0/24'', ''x''), (''10.0.0.0/24'', [])]
     = Inr [(''10.0.0.0/24'', []), (''10.0.1.0/24'', ''x'')]
   \<and> mset [(''10.0.0.0/24'', []), (''10.0.1.0/24'', ''x'')]
       = mset [(''10.0.1.0/24'', ''x''), (''10.0.0.0/24'', [])]
   \<and> map_of [(''10.0.0.0/24'', []), (''10.0.1.0/24'', ''x'')]
       = map_of [(''10.0.1.0/24'', ''x''), (''10.0.0.0/24'', [])]"
proof -
  have 1: "sort_entries_by_cidr [(''10.0.1.0/24'', ''x''), (''10.0.0.0/24'', [])]
     = Inr [(''10.0.0.0/24'', []), (''10.0.1.0/24'', ''x'')]"
    by (simp add: io_defs ip_defs)
  have 2: "distinct (map fst [(''10.0.1.0/24'', ''x''), (''10.0.0.0/24'', [])])" by simp
  from C10_sort_keeps_every_item
    [of "[(''10.0.1.0/24'', ''x''), (''10.0.0.0/24'', [])]"
        "[(''10.0.0.0/24'', []), (''10.0.1.0/24'', ''x'')]"]
    1 2
  show ?thesis by blast
qed

section \<open>The subnet grouping\<close>

lemma digit_char_digit: "d < 10 \<Longrightarrow> digit_char d \<in> set ''0123456789''"
  unfolding digit_char_def by (rule nth_mem) simp

lemma str_nat_digits: "set (str_nat n) \<subseteq> set ''0123456789''"
proof (induction n rule: str_nat.induct)
  case (1 n)
  show ?case
  proof (cases "n < 10")
    case True
    then show ?thesis using digit_char_digit [of n] by (subst str_nat.simps) simp
  next
    case False
    have "n mod 10 < 10" by simp
    from digit_char_digit [OF this] 1 [OF False] False show ?thesis
      by (subst str_nat.simps) simp
  qed
qed

lemma dot_notin_str_nat: "CHR ''.'' \<notin> set (str_nat n)"
  using str_nat_digits [of n] by auto

lemma rsplit1_head_last:
  assumes "sep \<notin> set t"
  shows "rsplit1_head sep (s @ sep # t) = s"
proof -
  have "dropWhile (\<lambda>c. c \<noteq> sep) (rev t @ sep # rev s) = sep # rev s"
  proof -
    have "\<And>x. x \<in> set (rev t) \<Longrightarrow> x \<noteq> sep" using assms by auto
    then have "dropWhile (\<lambda>c. c \<noteq> sep) (rev t @ sep # rev s) = dropWhile (\<lambda>c. c \<noteq> sep) (sep # rev s)"
      by (rule dropWhile_append2)
    then show ?thesis by simp
  qed
  then show ?thesis by (simp add: rsplit1_head_def)
qed

lemma str_ipv4_split:
  "str_ipv4 a =
     (str_nat (a div 16777216 mod 256) @ ''.'' @ str_nat (a div 65536 mod 256) @ ''.'' @
       str_nat (a div 256 mod 256)) @ CHR ''.'' # str_nat (a mod 256)"
  by (simp add: str_ipv4_def)

lemma first_three_octets_ipv4:
  "first_three_octets (IPNetwork (IPv4Address a) l) =
     str_nat (a div 16777216 mod 256) @ ''.'' @ str_nat (a div 65536 mod 256) @ ''.'' @
       str_nat (a div 256 mod 256)"
  unfolding first_three_octets_def
  by (simp only: ip_network.sel str_address.simps str_ipv4_split rsplit1_head_last [OF dot_notin_str_nat])

lemma first_three_octets_cong:
  assumes "a div 256 = b div 256"
  shows "first_three_octets (IPNetwork (IPv4Address a) l) = first_three_octets (IPNetwork (IPv4Address b) l')"
proof -
  have "a div 16777216 = a div 256 div 65536" "a div 65536 = a div 256 div 256"
       "b div 16777216 = b div 256 div 65536" "b div 65536 = b div 256 div 256"
    by (simp_all add: div_mult2_eq [symmetric])
  with assms show ?thesis by (simp add: first_three_octets_ipv4)
qed

lemma str_nat_0: "str_nat 0 = ''0''"
  by (simp add: str_nat.simps digit_char_def)

lemma str_nat_24: "str_nat 24 = ''24''"
  by (simp add: str_nat.simps digit_char_def)

lemma aggregated_name:
  "first_three_octets (IPNetwork (IPv4Address a) l) @ ''.0/24'' =
     str_network (IPNetwork (IPv4Address (256 * (a div 256))) 24)"
proof -
  let ?b = "256 * (a div 256)"
  have "?b div 256 = a div 256" by simp
  from first_three_octets_cong [OF this, of 24 l]
  have "first_three_octets (IPNetwork (IPv4Address a) l) = first_three_octets (IPNetwork (IPv4Address ?b) 24)"
    by simp
  moreover have "str_network (IPNetwork (IPv4Address ?b) 24)
      = first_three_octets (IPNetwork (IPv4Address ?b) 24) @ ''.0/24''"
    by (simp add: str_network_def str_ipv4_split first_three_octets_ipv4 str_nat_0 str_nat_24)
  ultimately show ?thesis by simp
qed


lemma set_set_add: "set (set_add x xs) = insert x (set xs)"
  by (auto simp: set_add_def)

lemma distinct_set_add: "distinct xs \<Longrightarrow> distinct (set_add x xs)"
  by (simp add: set_add_def)

lemma set_fold_set_add: "set (fold set_add xs ys) = set xs \<union> set ys"
  by (induction xs arbitrary: ys) (auto simp: set_set_add)

lemma distinct_fold_set_add: "distinct ys \<Longrightarrow> distinct (fold set_add xs ys)"
  by (induction xs arbitrary: ys) (auto simp: distinct_set_add)

lemma classify_entries_fold:
  "classify_entries es g = Inr g' \<Longrightarrow>
     \<exists>ns. map (\<lambda>e. ip_network (with_default_prefix e)) es = map Inr ns \<and> g' = fold add_network ns g"
proof (induction es arbitrary: g)
  case Nil
  then show ?case by simp
next
  case (Cons e es)
  from Cons.prems obtain n where n: "ip_network (with_default_prefix e) = Inr n"
    and rest: "classify_entries es (add_network n g) = Inr g'"
    by (auto split: sum.splits)
  from Cons.IH [OF rest] obtain ns where
    "map (\<lambda>e. ip_network (with_default_prefix e)) es = map Inr ns" "g' = fold add_network ns (add_network n g)"
    by blast
  with n have "map (\<lambda>e. ip_network (with_default_prefix e)) (e # es) = map Inr (n # ns)
      \<and> g' = fold add_network (n # ns) g"
    by simp
  then show ?case by blast
qed

lemma classify_entries_total:
  "map (\<lambda>e. ip_network (with_default_prefix e)) es = map Inr ns \<Longrightarrow>
     classify_entries es g = Inr (fold add_network ns g)"
proof (induction es arbitrary: g ns)
  case Nil
  then show ?case by simp
next
  case (Cons e es)
  then show ?case by (cases ns) auto
qed

lemma existing_fold:
  "set (existing_subnets (fold add_network ns g)) =
     set (existing_subnets g) \<union> {n \<in> set ns. prefixlen n \<noteq> 32}"
  by (induction ns arbitrary: g) (auto simp: add_network_def set_set_add)

lemma individual_fold:
  "set (individual_ips (fold add_network ns g)) =
     set (individual_ips g) \<union> {n \<in> set ns. prefixlen n = 32}"
  by (induction ns arbitrary: g) (auto simp: add_network_def set_set_add)

lemma distinct_existing_fold:
  "distinct (existing_subnets g) \<Longrightarrow> distinct (existing_subnets (fold add_network ns g))"
  by (induction ns arbitrary: g) (auto simp: add_network_def distinct_set_add)

lemma distinct_individual_fold:
  "distinct (individual_ips g) \<Longrightarrow> distinct (individual_ips (fold add_network ns g))"
  by (induction ns arbitrary: g) (auto simp: add_network_def distinct_set_add)

lemma map_of_dict_append:
  "map_of (dict_append k n d) k' =
     (if k' = k then Some ((case map_of d k of None \<Rightarrow> [] | Some ips \<Rightarrow> ips) @ [n]) else map_of d k')"
  by (simp add: dict_append_def update_conv')

lemma distinct_dict_append:
  "distinct (map fst d) \<Longrightarrow> distinct (map fst (dict_append k n d))"
  by (simp add: dict_append_def distinct_update)

lemma distinct_ip_dict_fold:
  "distinct (map fst (ip_dict g)) \<Longrightarrow> distinct (map fst (ip_dict (fold add_network ns g)))"
  by (induction ns arbitrary: g) (auto simp: add_network_def distinct_dict_append)

lemma map_of_ip_dict_fold:
  "map_of (ip_dict (fold add_network ns g)) k =
     (if group_of ns k = [] then map_of (ip_dict g) k
      else Some ((case map_of (ip_dict g) k of None \<Rightarrow> [] | Some ips \<Rightarrow> ips) @ group_of ns k))"
proof (induction ns arbitrary: g)
  case Nil
  then show ?case by (simp add: group_of_def)
next
  case (Cons n ns)
  show ?case
    by (simp add: Cons.IH)
       (auto simp: add_network_def group_of_def map_of_dict_append split: option.splits)
qed

lemma map_of_drop_covered:
  "map_of (drop_covered_groups subs d) k =
     (if k \<in> first_three_octets ` set subs then None else map_of d k)"
  unfolding drop_covered_groups_def
  by (induction subs arbitrary: d) (auto simp: delete_conv')

lemma distinct_drop_covered:
  "distinct (map fst d) \<Longrightarrow> distinct (map fst (drop_covered_groups subs d))"
  unfolding drop_covered_groups_def
  by (induction subs arbitrary: d) (auto simp: distinct_delete)

lemma aggregate_groups_sets:
  "aggregate_groups d t (res, ind) = (res', ind') \<Longrightarrow>
     set res' = set res \<union> {k @ ''.0/24'' | k ips. (k, ips) \<in> set d \<and> t \<le> int (length ips)}
     \<and> set ind' = {n \<in> set ind. \<forall>k ips. (k, ips) \<in> set d \<longrightarrow> t \<le> int (length ips) \<longrightarrow> n \<notin> set ips}
     \<and> (distinct res \<longrightarrow> distinct res')
     \<and> (distinct ind \<longrightarrow> distinct ind')"
proof (induction d arbitrary: res ind)
  case Nil
  then show ?case by simp
next
  case (Cons a d)
  obtain k ips where a: "a = (k, ips)" by (cases a)
  show ?case
  proof (cases "t \<le> int (length ips)")
    case True
    with Cons.prems a
    have "aggregate_groups d t (set_add (k @ ''.0/24'') res, filter (\<lambda>n. n \<notin> set ips) ind) = (res', ind')"
      by simp
    from Cons.IH [OF this] True a show ?thesis
      by (simp add: set_set_add distinct_set_add) blast
  next
    case False
    with Cons.prems a have "aggregate_groups d t (res, ind) = (res', ind')" by simp
    from Cons.IH [OF this] False a show ?thesis
      by simp blast
  qed
qed


lemma group_ips_into_subnets_Inr:
  assumes "group_ips_into_subnets addresses t = Inr out"
  obtains g res ind where
    "classify_entries addresses \<lparr>ip_dict = [], existing_subnets = [], individual_ips = []\<rparr> = Inr g"
    "aggregate_groups (drop_covered_groups (existing_subnets g) (ip_dict g)) t ([], individual_ips g) = (res, ind)"
    "out = fold set_add (map str_network ind) (fold set_add (map str_network (existing_subnets g)) res)"
  using assms unfolding group_ips_into_subnets_def
  by (auto split: sum.splits prod.splits)

lemma group_ips_into_subnets_total:
  assumes "map (\<lambda>e. ip_network (with_default_prefix e)) addresses = map Inr ns"
  shows "\<exists>out. group_ips_into_subnets addresses t = Inr out"
  unfolding group_ips_into_subnets_def
  by (simp add: classify_entries_total [OF assms] split: prod.splits)

lemma map_of_surviving_groups:
  fixes ns
  defines "g \<equiv> fold add_network ns \<lparr>ip_dict = [], existing_subnets = [], individual_ips = []\<rparr>"
  shows "map_of (drop_covered_groups (existing_subnets g) (ip_dict g)) k =
           (if covered ns k then None else if group_of ns k = [] then None else Some (group_of ns k))"
  by (simp add: map_of_drop_covered map_of_ip_dict_fold existing_fold covered_def g_def)

lemma in_group_of: "n \<in> set (group_of ns k) \<longleftrightarrow> n \<in> set ns \<and> prefixlen n = 32 \<and> first_three_octets n = k"
  by (auto simp: group_of_def)

lemma group_ips_into_subnets_set:
  assumes "group_ips_into_subnets addresses t = Inr out"
  shows "\<exists>ns. map (\<lambda>e. ip_network (with_default_prefix e)) addresses = map Inr ns
     \<and> distinct out
     \<and> set out = {k @ ''.0/24'' | k. aggregated ns t k}
               \<union> str_network ` {n \<in> set ns. prefixlen n \<noteq> 32}
               \<union> str_network ` {n \<in> set ns. prefixlen n = 32 \<and> \<not> aggregated ns t (first_three_octets n)}"
proof -
  let ?g0 = "\<lparr>ip_dict = [], existing_subnets = [], individual_ips = []\<rparr>"
  from assms obtain g res ind where
    g: "classify_entries addresses ?g0 = Inr g"
    and agg: "aggregate_groups (drop_covered_groups (existing_subnets g) (ip_dict g)) t ([], individual_ips g) = (res, ind)"
    and out: "out = fold set_add (map str_network ind) (fold set_add (map str_network (existing_subnets g)) res)"
    by (rule group_ips_into_subnets_Inr)
  from classify_entries_fold [OF g] obtain ns where
    ns: "map (\<lambda>e. ip_network (with_default_prefix e)) addresses = map Inr ns"
    and gf: "g = fold add_network ns ?g0"
    by blast
  let ?d = "drop_covered_groups (existing_subnets g) (ip_dict g)"
  have E: "set (existing_subnets g) = {n \<in> set ns. prefixlen n \<noteq> 32}"
    by (simp add: gf existing_fold)
  have I: "set (individual_ips g) = {n \<in> set ns. prefixlen n = 32}"
    by (simp add: gf individual_fold)
  have D: "distinct (map fst ?d)"
    by (simp add: gf distinct_drop_covered distinct_ip_dict_fold)
  have M: "map_of ?d k = (if covered ns k then None else if group_of ns k = [] then None else Some (group_of ns k))" for k
    unfolding gf by (rule map_of_surviving_groups)
  have mem: "(k, ips) \<in> set ?d \<longleftrightarrow> \<not> covered ns k \<and> group_of ns k \<noteq> [] \<and> ips = group_of ns k" for k ips
    using map_of_eq_Some_iff [OF D, of k ips] M [of k] by (auto split: if_splits)
  from aggregate_groups_sets [OF agg]
  have res: "set res = {k @ ''.0/24'' | k ips. (k, ips) \<in> set ?d \<and> t \<le> int (length ips)}"
    and ind: "set ind = {n \<in> set (individual_ips g). \<forall>k ips. (k, ips) \<in> set ?d \<longrightarrow> t \<le> int (length ips) \<longrightarrow> n \<notin> set ips}"
    and dres: "distinct res"
    by simp_all
  have res': "set res = {k @ ''.0/24'' | k. aggregated ns t k}"
    unfolding res mem aggregated_def by auto
  have ind': "set ind = {n \<in> set ns. prefixlen n = 32 \<and> \<not> aggregated ns t (first_three_octets n)}"
    unfolding ind mem I aggregated_def by (auto simp: in_group_of)
  have "distinct out"
    unfolding out using dres by (simp add: distinct_fold_set_add)
  moreover have "set out = {k @ ''.0/24'' | k. aggregated ns t k}
               \<union> str_network ` {n \<in> set ns. prefixlen n \<noteq> 32}
               \<union> str_network ` {n \<in> set ns. prefixlen n = 32 \<and> \<not> aggregated ns t (first_three_octets n)}"
    unfolding out set_fold_set_add set_map res' ind' E by blast
  ultimately show ?thesis using ns by blast
qed

text \<open>
  C3. Individual IPv4 addresses that all lie in one /24, at least \<open>threshold\<close> of them
  (exactly \<open>threshold\<close> included) and no other entry: the output is the single entry of
  that /24 and none of the hosts. An input entry is a host when it parses, with \<open>/32\<close>
  appended if it has no \<open>/\<close>, to an IPv4 network of prefix length 32; \<open>p\<close> is the common
  value of the first three octets, so \<open>256 * p\<close> is the network address of the /24 that
  contains every host.
\<close>

theorem C3_dense_hosts_become_one_subnet:
  assumes nonempty: "addresses \<noteq> []"
    and hosts: "\<forall>e \<in> set addresses. \<exists>a.
        ip_network (with_default_prefix e) = Inr (IPNetwork (IPv4Address a) 32) \<and> a div 256 = p"
    and enough: "threshold \<le> int (length addresses)"
  shows "group_ips_into_subnets addresses threshold =
           Inr [str_network (IPNetwork (IPv4Address (256 * p)) 24)]"
proof -
  let ?K = "first_three_octets (IPNetwork (IPv4Address (256 * p)) 24)"
  from hosts have "\<forall>e \<in> set addresses. \<exists>n. ip_network (with_default_prefix e) = Inr n" by blast
  then have "\<exists>ns. map (\<lambda>e. ip_network (with_default_prefix e)) addresses = map Inr ns"
    by (induction addresses) (auto simp: Cons_eq_map_conv)
  then obtain ns0 where "map (\<lambda>e. ip_network (with_default_prefix e)) addresses = map Inr ns0" ..
  from group_ips_into_subnets_total [OF this] obtain out where
    out: "group_ips_into_subnets addresses threshold = Inr out" ..
  from group_ips_into_subnets_set [OF out] obtain ns where
    ns: "map (\<lambda>e. ip_network (with_default_prefix e)) addresses = map Inr ns"
    and dist: "distinct out"
    and set_out: "set out = {k @ ''.0/24'' | k. aggregated ns threshold k}
               \<union> str_network ` {n \<in> set ns. prefixlen n \<noteq> 32}
               \<union> str_network ` {n \<in> set ns. prefixlen n = 32 \<and> \<not> aggregated ns threshold (first_three_octets n)}"
    by blast
  from ns have len: "length ns = length addresses"
    by (metis length_map)
  have all: "prefixlen n = 32 \<and> first_three_octets n = ?K" if "n \<in> set ns" for n
  proof -
    from that have "Inr n \<in> set (map (\<lambda>e. ip_network (with_default_prefix e)) addresses)"
      unfolding ns by simp
    then obtain e where "e \<in> set addresses" "ip_network (with_default_prefix e) = Inr n" by auto
    with hosts obtain a where n: "n = IPNetwork (IPv4Address a) 32" and a: "a div 256 = p" by fastforce
    have "a div 256 = (256 * p) div 256" using a by simp
    from first_three_octets_cong [OF this] n show ?thesis by simp
  qed
  then have grp: "group_of ns k = (if k = ?K then ns else [])" for k
    by (auto simp: group_of_def filter_empty_conv intro: filter_True)
  have cov: "\<not> covered ns k" for k
    using all by (auto simp: covered_def)
  from nonempty len have "ns \<noteq> []" by auto
  with grp cov enough len have agg: "aggregated ns threshold k \<longleftrightarrow> k = ?K" for k
    by (simp add: aggregated_def)
  have "set out = {?K @ ''.0/24''}"
    unfolding set_out agg using all by auto
  also have "?K @ ''.0/24'' = str_network (IPNetwork (IPv4Address (256 * p)) 24)"
    using aggregated_name [of "256 * p" 24] by simp
  finally have "set out = {str_network (IPNetwork (IPv4Address (256 * p)) 24)}" .
  with dist have "out = [str_network (IPNetwork (IPv4Address (256 * p)) 24)]"
    by (metis distinct.simps(2) empty_iff insert_iff list.exhaust list.set(1) list.set(2) insert_not_empty singleton_insert_inj_eq)
  with out show ?thesis by simp
qed


theorem C3_witness:
  "group_ips_into_subnets [''1.2.3.1'', ''1.2.3.2'', ''1.2.3.3''] 3 = Inr [''1.2.3.0/24'']"
proof -
  have 1: "[''1.2.3.1'', ''1.2.3.2'', ''1.2.3.3''] \<noteq> []" by simp
  have 2: "\<forall>e \<in> set [''1.2.3.1'', ''1.2.3.2'', ''1.2.3.3'']. \<exists>a.
        ip_network (with_default_prefix e) = Inr (IPNetwork (IPv4Address a) 32) \<and> a div 256 = 66051"
    by (simp add: with_default_prefix_def ip_defs)
  have 3: "(3::int) \<le> int (length [''1.2.3.1'', ''1.2.3.2'', ''1.2.3.3''])" by simp
  have 4: "str_network (IPNetwork (IPv4Address (256 * 66051)) 24) = ''1.2.3.0/24''"
    by (simp add: str_defs)
  from C3_dense_hosts_become_one_subnet [OF 1 2 3] 4 show ?thesis by simp
qed

lemma inj_map_Inr: "map Inr xs = map Inr ys \<Longrightarrow> xs = ys"
  by (simp add: inj_map_eq_map)

text \<open>
  C1. The claim: with an explicit /24 and at least \<open>threshold\<close> hosts of the same /24,
  the output holds only the explicit subnet and none of the hosts. The second loop of
  \<open>group_ips_into_subnets\<close> deletes the group of a key that an explicit subnet has, so
  the third loop neither adds an aggregated /24 nor removes the hosts of that group from
  \<open>individual_ips\<close>. As amended: the output holds the explicit subnet, without
  repetition, no group is left to aggregate for that prefix, and every host of the prefix
  stays in the output as a /32 entry, whatever the number of hosts.
\<close>

theorem C1_explicit_subnet_suppresses_aggregation:
  assumes out: "group_ips_into_subnets addresses threshold = Inr out"
    and subnet: "s \<in> set addresses"
      "ip_network (with_default_prefix s) = Inr (IPNetwork (IPv4Address b) 24)" "b div 256 = p"
    and host: "h \<in> set addresses"
      "ip_network (with_default_prefix h) = Inr (IPNetwork (IPv4Address a) 32)" "a div 256 = p"
  shows "str_network (IPNetwork (IPv4Address b) 24) \<in> set out
       \<and> str_network (IPNetwork (IPv4Address a) 32) \<in> set out
       \<and> distinct out
       \<and> (\<exists>g. classify_entries addresses \<lparr>ip_dict = [], existing_subnets = [], individual_ips = []\<rparr> = Inr g
             \<and> map_of (drop_covered_groups (existing_subnets g) (ip_dict g))
                  (first_three_octets (IPNetwork (IPv4Address a) 32)) = None)"
proof -
  let ?g0 = "\<lparr>ip_dict = [], existing_subnets = [], individual_ips = []\<rparr>"
  let ?S = "IPNetwork (IPv4Address b) 24" and ?H = "IPNetwork (IPv4Address a) 32"
  from out obtain g where g: "classify_entries addresses ?g0 = Inr g"
    by (rule group_ips_into_subnets_Inr)
  from classify_entries_fold [OF g] obtain ns where
    ns: "map (\<lambda>e. ip_network (with_default_prefix e)) addresses = map Inr ns"
    and gf: "g = fold add_network ns ?g0"
    by blast
  from group_ips_into_subnets_set [OF out] obtain ns' where
    ns': "map (\<lambda>e. ip_network (with_default_prefix e)) addresses = map Inr ns'"
    and dist: "distinct out"
    and set_out: "set out = {k @ ''.0/24'' | k. aggregated ns' threshold k}
               \<union> str_network ` {n \<in> set ns'. prefixlen n \<noteq> 32}
               \<union> str_network ` {n \<in> set ns'. prefixlen n = 32 \<and> \<not> aggregated ns' threshold (first_three_octets n)}"
    by blast
  from ns ns' have same: "ns' = ns" by (simp add: inj_map_Inr)
  have "Inr ?S \<in> set (map (\<lambda>e. ip_network (with_default_prefix e)) addresses)"
    using subnet(1,2) by force
  then have S: "?S \<in> set ns" unfolding ns by auto
  have "Inr ?H \<in> set (map (\<lambda>e. ip_network (with_default_prefix e)) addresses)"
    using host(1,2) by force
  then have H: "?H \<in> set ns" unfolding ns by auto
  have "a div 256 = b div 256" using subnet(3) host(3) by simp
  from first_three_octets_cong [OF this]
  have key: "first_three_octets ?H = first_three_octets ?S" .
  have cov: "covered ns (first_three_octets ?H)"
    unfolding covered_def key using S by force
  then have not_agg: "\<not> aggregated ns threshold (first_three_octets ?H)"
    by (simp add: aggregated_def)
  have 1: "str_network ?S \<in> set out"
    unfolding set_out same using S by force
  have 2: "str_network ?H \<in> set out"
    unfolding set_out same using H not_agg by force
  have 3: "map_of (drop_covered_groups (existing_subnets g) (ip_dict g)) (first_three_octets ?H) = None"
    unfolding gf using cov by (simp add: map_of_surviving_groups)
  from 1 2 3 dist g show ?thesis by blast
qed

lemma explicit_subnet_example:
  "group_ips_into_subnets [''10.0.0.0/24'', ''10.0.0.1'', ''10.0.0.2'', ''10.0.0.3''] 3 =
     Inr [''10.0.0.0/24'', ''10.0.0.1/32'', ''10.0.0.2/32'', ''10.0.0.3/32'']"
  by (simp add: grp_defs ip_defs str_defs)

theorem C1_counterexample:
  "group_ips_into_subnets [''10.0.0.0/24'', ''10.0.0.1'', ''10.0.0.2'', ''10.0.0.3''] 3 =
     Inr [''10.0.0.0/24'', ''10.0.0.1/32'', ''10.0.0.2/32'', ''10.0.0.3/32'']
   \<and> ''10.0.0.1/32'' \<in> set [''10.0.0.0/24'', ''10.0.0.1/32'', ''10.0.0.2/32'', ''10.0.0.3/32'']"
  using explicit_subnet_example by simp

theorem C1_witness:
  "group_ips_into_subnets [''10.0.0.0/24'', ''10.0.0.1'', ''10.0.0.2'', ''10.0.0.3''] 3 =
     Inr [''10.0.0.0/24'', ''10.0.0.1/32'', ''10.0.0.2/32'', ''10.0.0.3/32'']
   \<and> str_network (IPNetwork (IPv4Address 167772160) 24)
        \<in> set [''10.0.0.0/24'', ''10.0.0.1/32'', ''10.0.0.2/32'', ''10.0.0.3/32'']
   \<and> str_network (IPNetwork (IPv4Address 167772162) 32)
        \<in> set [''10.0.0.0/24'', ''10.0.0.1/32'', ''10.0.0.2/32'', ''10.0.0.3/32'']"
proof -
  let ?addresses = "[''10.0.0.0/24'', ''10.0.0.1'', ''10.0.0.2'', ''10.0.0.3'']"
  have 1: "''10.0.0.0/24'' \<in> set ?addresses" by simp
  have 2: "ip_network (with_default_prefix ''10.0.0.0/24'') = Inr (IPNetwork (IPv4Address 167772160) 24)"
    by (simp add: with_default_prefix_def ip_defs)
  have 3: "(167772160::nat) div 256 = 655360" by simp
  have 4: "''10.0.0.2'' \<in> set ?addresses" by simp
  have 5: "ip_network (with_default_prefix ''10.0.0.2'') = Inr (IPNetwork (IPv4Address 167772162) 32)"
    by (simp add: with_default_prefix_def ip_defs)
  have 6: "(167772162::nat) div 256 = 655360" by simp
  from C1_explicit_subnet_suppresses_aggregation [OF explicit_subnet_example 1 2 3 4 5 6]
  show ?thesis using explicit_subnet_example by simp
qed

section \<open>Writing and reading back\<close>

lemma universal_newlines_id: "CHR 0x0D \<notin> set t \<Longrightarrow> universal_newlines t = t"
  by (induction t rule: universal_newlines.induct) auto

lemma file_lines_line:
  "CHR 0x0A \<notin> set l \<Longrightarrow> file_lines (l @ CHR 0x0A # rest) = (l @ [CHR 0x0A]) # file_lines rest"
  by (induction l) auto

lemma file_lines_concat:
  assumes "\<forall>x \<in> set xs. \<exists>l. f x = l @ [CHR 0x0A] \<and> CHR 0x0A \<notin> set l"
  shows "file_lines (concat (map f xs)) = map f xs"
  using assms
proof (induction xs)
  case Nil
  then show ?case by simp
next
  case (Cons x xs)
  then obtain l where l: "f x = l @ [CHR 0x0A]" "CHR 0x0A \<notin> set l" by auto
  from Cons have "file_lines (concat (map f xs)) = map f xs" by simp
  with l show ?case by (simp add: file_lines_line)
qed

lemma strip_while_snoc:
  assumes "P z"
  shows "strip_while P (xs @ [z]) = strip_while P xs"
proof (cases "\<forall>x \<in> set xs. P x")
  case True
  then have a: "dropWhile P xs = []" by simp
  from True assms have b: "dropWhile P (xs @ [z]) = []" by simp
  show ?thesis unfolding strip_while_def a b ..
next
  case False
  then have "dropWhile P (xs @ [z]) = dropWhile P xs @ [z]"
    by (auto simp: dropWhile_append)
  with assms show ?thesis by (simp add: strip_while_def)
qed

lemma strip_while_id:
  assumes "\<forall>x \<in> set xs. \<not> P x"
  shows "strip_while P xs = xs"
proof -
  have keep: "dropWhile P ys = ys" if "\<forall>x \<in> set ys. \<not> P x" for ys
    using that by (cases ys) auto
  from assms have "dropWhile P xs = xs" by (rule keep)
  moreover from assms have "dropWhile P (rev xs) = rev xs" by (intro keep) simp
  ultimately show ?thesis by (simp add: strip_while_def)
qed

lemma strip_while_nonempty:
  assumes "x \<in> set xs" "\<not> P x"
  shows "strip_while P xs \<noteq> []"
proof -
  from assms have "dropWhile P xs \<noteq> []" by (auto simp: dropWhile_eq_Nil_conv)
  moreover from assms have "\<exists>y \<in> set (dropWhile P xs). \<not> P y"
    by (metis dropWhile_eq_Nil_conv hd_dropWhile hd_in_set)
  then have "dropWhile P (rev (dropWhile P xs)) \<noteq> []"
    by (auto simp: dropWhile_eq_Nil_conv)
  ultimately show ?thesis by (simp add: strip_while_def)
qed

lemma split1_found:
  assumes "sep \<notin> set a"
  shows "split1 sep (a @ sep # b) = [a, b]"
proof -
  from assms have ne: "\<And>x. x \<in> set a \<Longrightarrow> x \<noteq> sep" by auto
  have "takeWhile (\<lambda>c. c \<noteq> sep) (a @ sep # b) = a"
    using ne by (simp add: takeWhile_append2)
  moreover have "dropWhile (\<lambda>c. c \<noteq> sep) (a @ sep # b) = sep # b"
    using ne by (simp add: dropWhile_append2)
  ultimately show ?thesis by (simp add: split1_def)
qed

lemma split1_none: "sep \<notin> set a \<Longrightarrow> split1 sep a = [a]"
  by (simp add: split1_def)

lemma strip_marker:
  assumes "CHR 0x0A \<notin> set c"
  shows "strip_chars ''# '' (''# '' @ c @ [CHR 0x0A]) = dropWhile (\<lambda>x. x \<in> set ''# '') c @ [CHR 0x0A]"
  by (simp add: strip_chars_def strip_while_def dropWhile_append)

lemma dropWhile_marker:
  "\<not> startswith (dropWhile (\<lambda>x. x = CHR '' '') c) ''#'' \<Longrightarrow>
     dropWhile (\<lambda>x. x \<in> set ''# '') c = dropWhile (\<lambda>x. x = CHR '' '') c"
  by (induction c) (auto simp: startswith_def)

lemma dropWhile_dropWhile_weaker:
  "(\<And>x. Q x \<Longrightarrow> P x) \<Longrightarrow> dropWhile P (dropWhile Q xs) = dropWhile P xs"
  by (induction xs) auto

lemma strip_after_spaces:
  "strip_while py_isspace (dropWhile (\<lambda>x. x = CHR '' '') c) = strip_while py_isspace c"
proof -
  have "dropWhile py_isspace (dropWhile (\<lambda>x. x = CHR '' '') c) = dropWhile py_isspace c"
    by (rule dropWhile_dropWhile_weaker) (simp add: py_isspace_def)
  then show ?thesis by (simp add: strip_while_def)
qed

lemma isspace_newline: "py_isspace (CHR 0x0A)"
  by (simp add: py_isspace_def)

lemma isspace_space: "py_isspace CHR '' ''"
  by (simp add: py_isspace_def)

lemma recovered_comment:
  assumes "CHR 0x0A \<notin> set c" "\<not> startswith (dropWhile (\<lambda>x. x = CHR '' '') c) ''#''"
  shows "py_strip (strip_chars ''# '' (''# '' @ c @ [CHR 0x0A])) = py_strip c"
  unfolding py_strip_def strip_marker [OF assms(1)] dropWhile_marker [OF assms(2)]
  by (simp only: strip_while_snoc [where P = py_isspace, OF isspace_newline] strip_after_spaces)


lemma startswith_append: "e \<noteq> [] \<Longrightarrow> startswith (e @ x) ''#'' = startswith e ''#''"
  by (cases e) (simp_all add: startswith_def)

lemma update_fresh: "k \<notin> fst ` set al \<Longrightarrow> AList.update k v al = al @ [(k, v)]"
  by (induction al) auto

lemma fold_update_fresh:
  assumes "distinct (map fst xs)" "fst ` set xs \<inter> fst ` set acc = {}"
  shows "fold (\<lambda>item. AList.update (fst item) (g item)) xs acc = acc @ map (\<lambda>item. (fst item, g item)) xs"
  using assms
proof (induction xs arbitrary: acc)
  case Nil
  then show ?case by simp
next
  case (Cons x xs)
  from Cons.prems have fresh: "fst x \<notin> fst ` set acc" by auto
  then have step: "AList.update (fst x) (g x) acc = acc @ [(fst x, g x)]" by (rule update_fresh)
  from Cons.prems have "distinct (map fst xs)" "fst ` set xs \<inter> fst ` set (acc @ [(fst x, g x)]) = {}"
    by auto
  from Cons.IH [OF this] step show ?case by simp
qed

lemma load_line_step:
  assumes e: "e \<noteq> []" "\<forall>ch \<in> set e. \<not> py_isspace ch" "\<not> startswith e ''#''"
    and c: "int (length c) \<le> mcl - 2" "CHR 0x0A \<notin> set c"
      "\<not> startswith (dropWhile (\<lambda>ch. ch = CHR '' '') c) ''#''"
  shows "load_lines (render_line mcl (e, c) # rest) acc =
           load_lines rest (AList.update e (py_strip c) acc)"
proof -
  from e(2) have nosp: "CHR '' '' \<notin> set e" using isspace_space by auto
  from e(1) obtain x where x: "x \<in> set e" by (cases e) auto
  with e(2) have xs: "\<not> py_isspace x" by simp
  have strip_e: "py_strip e = e"
    unfolding py_strip_def using e(2) by (rule strip_while_id)
  show ?thesis
  proof (cases "c = []")
    case True
    let ?line = "e @ [CHR 0x0A]"
    have line: "render_line mcl (e, c) = ?line" using True by (simp add: render_line_def)
    have 1: "py_strip ?line = e"
      unfolding py_strip_def strip_while_snoc [where P = py_isspace, OF isspace_newline]
      using strip_e by (simp add: py_strip_def)
    have 2: "\<not> startswith ?line ''#''" using e(1,3) by (simp add: startswith_append)
    have 3: "split1 CHR '' '' ?line = [?line]" using nosp by (simp add: split1_none)
    have 4: "py_strip c = []" using True by (simp add: py_strip_def strip_while_def)
    show ?thesis unfolding line using 1 2 3 4 e(1) by simp
  next
    case False
    let ?tail = "''# '' @ c @ [CHR 0x0A]"
    let ?line = "e @ CHR '' '' # ?tail"
    have line: "render_line mcl (e, c) = ?line" using False c(1) by (simp add: render_line_def)
    have "x \<in> set ?line" using x by simp
    then have 1: "py_strip ?line \<noteq> []"
      unfolding py_strip_def using xs by (rule strip_while_nonempty)
    have "startswith ?line ''#'' = startswith e ''#''" using e(1) by (rule startswith_append)
    with e(3) have 2: "\<not> startswith ?line ''#''" by simp
    have 3: "split1 CHR '' '' ?line = [e, ?tail]" using nosp by (rule split1_found)
    have 4: "py_strip (strip_chars ''# '' ?tail) = py_strip c" using c(2,3) by (rule recovered_comment)
    show ?thesis unfolding line load_lines.simps using 1 2 3 4 strip_e by (simp add: Let_def)
  qed
qed

lemma load_lines_rendered:
  assumes "\<forall>item \<in> set entries.
       fst item \<noteq> [] \<and> (\<forall>ch \<in> set (fst item). \<not> py_isspace ch) \<and> \<not> startswith (fst item) ''#''
       \<and> int (length (snd item)) \<le> mcl - 2 \<and> CHR 0x0A \<notin> set (snd item)
       \<and> \<not> startswith (dropWhile (\<lambda>ch. ch = CHR '' '') (snd item)) ''#''"
  shows "load_lines (map (render_line mcl) entries) acc =
           fold (\<lambda>item. AList.update (fst item) (py_strip (snd item))) entries acc"
  using assms
proof (induction entries arbitrary: acc)
  case Nil
  then show ?case by simp
next
  case (Cons item entries)
  obtain e c where item: "item = (e, c)" by (cases item)
  from Cons.prems item have
    "e \<noteq> []" "\<forall>ch \<in> set e. \<not> py_isspace ch" "\<not> startswith e ''#''"
    "int (length c) \<le> mcl - 2" "CHR 0x0A \<notin> set c"
    "\<not> startswith (dropWhile (\<lambda>ch. ch = CHR '' '') c) ''#''"
    by simp_all
  from load_line_step [OF this]
  have "load_lines (render_line mcl (e, c) # map (render_line mcl) entries) acc =
          load_lines (map (render_line mcl) entries) (AList.update e (py_strip c) acc)" .
  with Cons item show ?case by simp
qed

lemma rendered_line_shape:
  assumes "\<forall>ch \<in> set e. \<not> py_isspace ch" "int (length c) \<le> mcl - 2" "CHR 0x0A \<notin> set c"
  shows "\<exists>l. render_line mcl (e, c) = l @ [CHR 0x0A] \<and> CHR 0x0A \<notin> set l"
proof -
  from assms(1) have e: "CHR 0x0A \<notin> set e" using isspace_newline by auto
  show ?thesis
  proof (cases "c = []")
    case True
    with e show ?thesis by (simp add: render_line_def)
  next
    case False
    with assms(2) have "render_line mcl (e, c) = (e @ '' # '' @ c) @ [CHR 0x0A]"
      by (simp add: render_line_def)
    moreover have "CHR 0x0A \<notin> set (e @ '' # '' @ c)" using e assms(3) by simp
    ultimately show ?thesis by blast
  qed
qed

lemma rendered_line_no_cr:
  assumes "\<forall>ch \<in> set e. \<not> py_isspace ch" "int (length c) \<le> mcl - 2" "CHR 0x0D \<notin> set c"
  shows "CHR 0x0D \<notin> set (render_line mcl (e, c))"
proof -
  have "py_isspace (CHR 0x0D)" by (simp add: py_isspace_def)
  with assms(1) have "CHR 0x0D \<notin> set e" by auto
  with assms(2,3) show ?thesis by (simp add: render_line_def)
qed

text \<open>
  C8. The claim: a mapping whose comments are within the truncation length is recovered,
  up to formatting whitespace, by writing it with \<open>write_to_output_file\<close> and parsing
  the file with \<open>load_existing_output_file_entries\<close>. The reader strips \<open>#\<close> and
  spaces from both ends of what follows the entry, so a comment that begins with \<open>#\<close>
  loses it; and the writer truncates a comment longer than
  \<open>fg_max_comment_length - 2\<close>, so a comment of exactly \<open>fg_max_comment_length\<close>
  characters comes back cut, with three dots. As amended: when the file is written (the
  entry count is within its cap and the file can be opened), the keys are distinct,
  non-empty, free of whitespace and do not begin with \<open>#\<close>, and every comment has at
  most \<open>fg_max_comment_length - 2\<close> characters, no line break and no \<open>#\<close> as its
  first character after leading spaces, then parsing the written file yields the same
  entries in the same order, each with its comment stripped of surrounding whitespace.
\<close>

theorem C8_round_trip_of_plain_comments:
  assumes count: "int (length entries) \<le> fg_max_entries cfg"
    and openable: "\<not> unwritable w file_path"
    and keys: "distinct (map fst entries)"
    and entries_ok: "\<forall>item \<in> set entries.
        fst item \<noteq> [] \<and> (\<forall>ch \<in> set (fst item). \<not> py_isspace ch) \<and> \<not> startswith (fst item) ''#''"
    and comments_ok: "\<forall>item \<in> set entries.
        int (length (snd item)) \<le> fg_max_comment_length cfg - 2
        \<and> CHR 0x0A \<notin> set (snd item) \<and> CHR 0x0D \<notin> set (snd item)
        \<and> \<not> startswith (dropWhile (\<lambda>ch. ch = CHR '' '') (snd item)) ''#''"
  shows "load_existing_output_file_entries
           (files (snd (write_to_output_file entries file_path cfg w))) file_path =
         map (\<lambda>item. (fst item, py_strip (snd item))) entries"
proof -
  let ?mcl = "fg_max_comment_length cfg"
  let ?text = "concat (map (render_line ?mcl) entries)"
  from count openable
  have written: "files (snd (write_to_output_file entries file_path cfg w)) file_path = Some ?text"
    by (simp add: write_to_output_file_def Let_def)
  have "CHR 0x0D \<notin> set (render_line ?mcl item)" if "item \<in> set entries" for item
    using that entries_ok comments_ok rendered_line_no_cr [of "fst item" "snd item" ?mcl] by simp
  then have "CHR 0x0D \<notin> set ?text" by auto
  then have "read_lines ?text = file_lines ?text"
    by (simp add: read_lines_def universal_newlines_id)
  also have "\<dots> = map (render_line ?mcl) entries"
  proof (rule file_lines_concat, rule ballI)
    fix item assume "item \<in> set entries"
    with entries_ok comments_ok rendered_line_shape [of "fst item" "snd item" ?mcl]
    show "\<exists>l. render_line ?mcl item = l @ [CHR 0x0A] \<and> CHR 0x0A \<notin> set l" by simp
  qed
  finally have lines: "read_lines ?text = map (render_line ?mcl) entries" .
  have "load_lines (map (render_line ?mcl) entries) [] =
          fold (\<lambda>item. AList.update (fst item) (py_strip (snd item))) entries []"
    using entries_ok comments_ok by (intro load_lines_rendered) simp
  also have "\<dots> = [] @ map (\<lambda>item. (fst item, py_strip (snd item))) entries"
    using keys by (intro fold_update_fresh) simp_all
  finally show ?thesis
    by (simp add: load_existing_output_file_entries_def written lines)
qed


theorem C8_counterexample:
  "fst (write_to_output_file [(''1.2.3.4/32'', ''#1 ISP'')] ''out.txt'' roomy_config empty_world)
   \<and> load_existing_output_file_entries
       (files (snd (write_to_output_file [(''1.2.3.4/32'', ''#1 ISP'')] ''out.txt''
          roomy_config empty_world))) ''out.txt''
     = [(''1.2.3.4/32'', ''1 ISP'')]
   \<and> int (length ''United States | California | Example ISP'') = fg_max_comment_length roomy_config
   \<and> load_existing_output_file_entries
       (files (snd (write_to_output_file
          [(''5.6.7.0/24'', ''United States | California | Example ISP'')] ''out.txt''
          roomy_config empty_world))) ''out.txt''
     = [(''5.6.7.0/24'', ''United States | California | Exampl...'')]"
  by (simp add: io_defs example_defs AList.update_def)

theorem C8_witness:
  "load_existing_output_file_entries
     (files (snd (write_to_output_file
        [(''1.2.3.0/24'', ''US | CA | Example''), (''5.6.7.8/32'', [])] ''out.txt''
        roomy_config empty_world))) ''out.txt''
   = [(''1.2.3.0/24'', ''US | CA | Example''), (''5.6.7.8/32'', [])]"
proof -
  let ?entries = "[(''1.2.3.0/24'', ''US | CA | Example''), (''5.6.7.8/32'', [])]"
  have 1: "int (length ?entries) \<le> fg_max_entries roomy_config"
    by (simp add: roomy_config_def)
  have 2: "\<not> unwritable empty_world ''out.txt''"
    by (simp add: empty_world_def)
  have 3: "distinct (map fst ?entries)" by simp
  have 4: "\<forall>item \<in> set ?entries.
        fst item \<noteq> [] \<and> (\<forall>ch \<in> set (fst item). \<not> py_isspace ch) \<and> \<not> startswith (fst item) ''#''"
    by (simp add: py_isspace_def startswith_def)
  have 5: "\<forall>item \<in> set ?entries.
        int (length (snd item)) \<le> fg_max_comment_length roomy_config - 2
        \<and> CHR 0x0A \<notin> set (snd item) \<and> CHR 0x0D \<notin> set (snd item)
        \<and> \<not> startswith (dropWhile (\<lambda>ch. ch = CHR '' '') (snd item)) ''#''"
    by (simp add: roomy_config_def startswith_def)
  have 6: "map (\<lambda>item. (fst item, py_strip (snd item))) ?entries = ?entries"
    by (simp add: io_defs)
  from C8_round_trip_of_plain_comments [OF 1 2 3 4 5] 6 show ?thesis by simp
qed

section \<open>Claims that the code does not meet\<close>

text \<open>
  The two caps of \<open>write_to_output_file\<close>. Too many entries: nothing is written. Too
  many bytes: the answer is \<open>False\<close> as well, but the file already holds the new text.
\<close>

lemma write_rejects_excess_entries:
  "int (length entries) > fg_max_entries cfg \<Longrightarrow>
     write_to_output_file entries file_path cfg w = (False, w)"
  by (simp add: write_to_output_file_def)

lemma write_keeps_oversized_text:
  assumes "int (length entries) \<le> fg_max_entries cfg" "\<not> unwritable w file_path"
    and "int (utf8_size (concat (map (render_line (fg_max_comment_length cfg)) entries)))
           > fg_max_size_bytes cfg"
  shows "write_to_output_file entries file_path cfg w =
     (False, w\<lparr>files := (files w)(file_path \<mapsto>
        concat (map (render_line (fg_max_comment_length cfg)) entries))\<rparr>)"
  using assms by (simp add: write_to_output_file_def Let_def)

text \<open>
  C2. The claim: whenever the entry count or the rendered byte size exceeds its cap,
  \<open>write_to_output_file\<close> returns failure and the previous content of the output file
  is unchanged. The entry count is checked before the file is opened, the size only after
  the file has been written: with a cap of 10 bytes, one entry with a comment makes the
  function return \<open>False\<close>, and the file that held \<open>9.9.9.9/32\<close> now holds the rejected
  text of 31 bytes.
\<close>

theorem C2_size_cap_checked_after_write:
  "write_to_output_file [(''1.2.3.0/24'', ''US | CA | Example'')]
     ''/repo/output/blocklist-industrial.txt'' small_size_config previous_output_world =
   (False, previous_output_world
      \<lparr>files := (files previous_output_world)
         (''/repo/output/blocklist-industrial.txt'' \<mapsto>
            ''1.2.3.0/24 # US | CA | Example'' @ [CHR 0x0A])\<rparr>)
   \<and> files previous_output_world ''/repo/output/blocklist-industrial.txt''
       = Some (''9.9.9.9/32'' @ [CHR 0x0A])
   \<and> utf8_size (''1.2.3.0/24 # US | CA | Example'' @ [CHR 0x0A]) = 31"
  by (simp add: io_defs example_defs)

text \<open>
  C4. The claim: a line that fails to parse is rejected and the run continues; no input
  line raises an uncaught exception. \<open>validate_ip_addresses\<close> parses only the part
  before the first \<open>/\<close>, so \<open>1.2.3.4/99\<close> is accepted; \<open>group_ips_into_subnets\<close> then
  calls \<open>ip_network\<close> on the whole entry outside any \<open>try\<close>, and the \<open>ValueError\<close>
  leaves \<open>process_lists\<close> and \<open>main\<close>.
\<close>

theorem C4_bad_prefix_length_aborts_run:
  "validate_ip_addresses [''1.2.3.4/99''] = [''1.2.3.4/99'']
   \<and> group_ips_into_subnets [''1.2.3.4/99''] threshold = Inl ValueError
   \<and> process_lists whois ''/repo/a.txt'' output_file_path cfg
         \<lparr>files = [''/repo/a.txt'' \<mapsto> ''1.2.3.4/99'' @ [CHR 0x0A]],
          unwritable = u, git_log = g\<rparr> = Inl ValueError
   \<and> main whois True (\<lambda>fs. fs) small_size_config
         \<lparr>files = [''/repo/a.txt'' \<mapsto> ''1.2.3.4/99'' @ [CHR 0x0A]],
          unwritable = u, git_log = g\<rparr> = Inl ValueError"
  by (simp add: io_defs grp_defs ip_defs example_defs)

text \<open>
  C5. The claim: when the registry lookup fails for an entry that has no previous
  annotation, the entry still reaches the output with an empty comment. In
  \<open>fetch_whois_info\<close> the \<open>except\<close> branch only logs: the entry gets no item in the
  result, so it is missing from the mapping that is sorted and written. With a failing
  lookup and the single input line \<open>1.2.3.4\<close> the run writes an empty file and still
  reports one added entry.
\<close>

theorem C5_failed_lookup_drops_entry:
  "fetch_whois_info failing_whois [''1.2.3.4/32''] [] [] = []
   \<and> process_lists failing_whois ''/repo/a.txt'' ''/repo/output/blocklist-industrial.txt''
         small_size_config
         \<lparr>files = [''/repo/a.txt'' \<mapsto> ''1.2.3.4'' @ [CHR 0x0A]],
          unwritable = (\<lambda>path. False), git_log = []\<rparr>
       = Inr ((True, 1, 0),
           \<lparr>files = [''/repo/a.txt'' \<mapsto> ''1.2.3.4'' @ [CHR 0x0A],
                     ''/repo/output/blocklist-industrial.txt'' \<mapsto> []],
            unwritable = (\<lambda>path. False), git_log = []\<rparr>)"
  by (simp add: io_defs grp_defs ip_defs str_defs example_defs)

text \<open>
  C6. The claim: a valid IPv6 address or subnet passes through \<open>group_ips_into_subnets\<close>
  unchanged, never grouped in the /24 style and never rewritten to another network or
  prefix length. A plain address gets \<open>/32\<close> appended whatever its version, so the IPv6
  host \<open>2001:db8::1\<close>, which \<open>validate_ip_addresses\<close> accepts, becomes the network
  \<open>2001:db8::/32\<close>; with a threshold of 1 it is grouped into the text
  \<open>2001:db8::.0/24\<close>, which is no network at all and makes \<open>sort_entries_by_cidr\<close>
  raise \<open>ValueError\<close>.
\<close>

theorem C6_ipv6_host_rewritten:
  "validate_ip_addresses [''2001:db8::1''] = [''2001:db8::1'']
   \<and> group_ips_into_subnets [''2001:db8::1''] 5 = Inr [''2001:db8::/32'']
   \<and> group_ips_into_subnets [''2001:db8::1''] 1 = Inr [''2001:db8::.0/24'']
   \<and> sort_entries_by_cidr [(''2001:db8::.0/24'', comment)] = Inl ValueError"
  by (simp add: io_defs grp_defs ip_defs str_defs)

text \<open>
  C9. The claim: a validation failure for one input file does not abort the later files
  and prevents the publish step of the run. The loop of \<open>main\<close> overwrites \<open>processed\<close>
  for every file, so only the last file decides. Here the first file yields two entries
  against a cap of one and its write is rejected; the second file is written, and
  \<open>commit_and_push_changes\<close> is invoked.
\<close>

theorem C9_publish_decided_by_last_file:
  "map_sum id fst
     (process_lists example_whois ''/repo/a.txt'' ''/repo/output/blocklist-industrial.txt''
        example_config example_world) = Inr (False, 2, 0)
   \<and> map_sum id (\<lambda>w. (git_log w,
          files w ''/repo/output/blocklist-industrial.txt'',
          files w ''/repo/output/blocklist-industrial-manual.txt''))
       (main example_whois True (\<lambda>fs. fs) example_config example_world)
     = Inr ([Pull, CommitAndPush], None,
            Some (''9.9.9.9/32 # US | None | Example'' @ [CHR 0x0A]))"
  by (simp add: io_defs grp_defs ip_defs str_defs example_defs)

end
